theory Spec2Isabelle
  imports Complex_Main "HOL-Library.Multiset"
begin

section \<open>Numbers and strings of the host language\<close>

text \<open>
  The program is TypeScript. A \<open>number\<close> that holds an amount is modelled as an exact
  rational (\<open>rat\<close>); \<open>NaN\<close>, where the program can meet it, is \<open>None\<close> of an option.
  The rounding and the overflow of IEEE doubles are not modelled. A \<open>string\<close> is a list
  of characters.
\<close>

definition isDigit :: "char \<Rightarrow> bool" where
  "isDigit c = (48 \<le> (of_char c :: nat) \<and> (of_char c :: nat) \<le> 57)"

definition digit_val :: "char \<Rightarrow> nat" where
  "digit_val c = of_char c - 48"

definition digit_char :: "nat \<Rightarrow> char" where
  "digit_char d = char_of (48 + d)"

text \<open>The value of a run of decimal digits, most significant first.\<close>

definition digits_value :: "string \<Rightarrow> nat" where
  "digits_value ds = foldl (\<lambda>a c. 10 * a + digit_val c) 0 ds"

text \<open>The decimal digits of a natural number, as \<open>Number.prototype.toString\<close> prints them.\<close>

fun digits_of :: "nat \<Rightarrow> string" where
  "digits_of n =
     (if n < 10 then [digit_char n] else digits_of (n div 10) @ [digit_char (n mod 10)])"

declare digits_of.simps [simp del]

text \<open>\<open>String(n)\<close> for an integral number \<open>n\<close>.\<close>

definition Number_toString :: "int \<Rightarrow> string" where
  "Number_toString i = (if i < 0 then CHR ''-'' # digits_of (nat (- i)) else digits_of (nat i))"

text \<open>
  \<open>parseFloat\<close> on the strings it is given here, which hold only digits, \<open>.\<close> and \<open>-\<close>
  (all that the replacement in \<open>finishImport\<close> leaves): it reads the longest prefix that
  is a decimal literal, an optional \<open>-\<close>, then digits with an optional fraction, or a
  fraction alone; it is \<open>NaN\<close> (\<open>None\<close>) when there is no such prefix.
\<close>

definition parseFloat :: "string \<Rightarrow> rat option" where
  "parseFloat s =
     (let neg = (s \<noteq> [] \<and> hd s = CHR ''-'');
          r = (if neg then tl s else s);
          ip = takeWhile isDigit r;
          rest = dropWhile isDigit r;
          fp = (if rest \<noteq> [] \<and> hd rest = CHR ''.'' then takeWhile isDigit (tl rest) else []);
          v = of_nat (digits_value ip) + of_nat (digits_value fp) / 10 ^ length fp
      in if ip = [] \<and> fp = [] then None else Some (if neg then - v else v))"

text \<open>
  \<open>parseFloat(x.toFixed(f))\<close> for a finite \<open>x\<close>: \<open>toFixed\<close> prints the multiple of
  \<open>10^-f\<close> nearest to \<open>x\<close>, the one of greater magnitude on a tie, and \<open>parseFloat\<close>
  reads that decimal back.
\<close>

definition toFixed :: "nat \<Rightarrow> rat \<Rightarrow> rat" where
  "toFixed f x =
     (let n = \<lfloor>\<bar>x\<bar> * 10 ^ f + 1 / 2\<rfloor>
      in (if x < 0 then - of_int n else of_int n) / 10 ^ f)"

text \<open>\<open>a || b\<close> on strings that may be \<open>undefined\<close>: the empty string is falsy too.\<close>

definition or_else :: "string option \<Rightarrow> string \<Rightarrow> string" where
  "or_else a b = (case a of None \<Rightarrow> b | Some s \<Rightarrow> if s = [] then b else s)"

section \<open>Types and constants\<close>

record Expense =
  id_field :: string
  date :: string
  description :: string
  amount :: rat
  category :: string
  account :: string

definition CATEGORIES :: "string list" where
  "CATEGORIES =
     [''Groceries'', ''Rent'', ''Utilities'', ''Transportation'', ''Entertainment'',
      ''Healthcare'', ''Shopping'', ''Dining'', ''Travel'', ''Subscriptions'',
      ''Income'', ''Transfer'', ''Other'']"

section \<open>Dates\<close>

text \<open>
  A \<open>Date\<close> object holds a time value, the milliseconds since the epoch, or \<open>NaN\<close>
  (an invalid date, \<open>None\<close>). The day arithmetic is that of ECMAScript's proleptic
  Gregorian calendar, written with the usual closed forms.
\<close>

definition msPerDay :: int where
  "msPerDay = 86400000"

definition Day :: "int \<Rightarrow> int" where
  "Day t = t div msPerDay"

text \<open>The day number of the civil date \<open>y-m-d\<close> (month \<open>1..12\<close>), day 0 being 1970-01-01.\<close>

definition days_from_civil :: "int \<Rightarrow> int \<Rightarrow> int \<Rightarrow> int" where
  "days_from_civil y m d =
     (let y' = (if m \<le> 2 then y - 1 else y);
          era = y' div 400;
          yoe = y' - era * 400;
          doy = (153 * (if m > 2 then m - 3 else m + 9) + 2) div 5 + d - 1;
          doe = yoe * 365 + yoe div 4 - yoe div 100 + doy
      in era * 146097 + doe - 719468)"

text \<open>The civil date (year, month \<open>1..12\<close>, day of the month) of a day number.\<close>

definition civil_from_days :: "int \<Rightarrow> int \<times> int \<times> int" where
  "civil_from_days z0 =
     (let z = z0 + 719468;
          era = z div 146097;
          doe = z - era * 146097;
          yoe = (doe - doe div 1460 + doe div 36524 - doe div 146096) div 365;
          doy = doe - (365 * yoe + yoe div 4 - yoe div 100);
          mp = (5 * doy + 2) div 153;
          d = doy - (153 * mp + 2) div 5 + 1;
          m = (if mp < 10 then mp + 3 else mp - 9);
          y = yoe + era * 400 + (if m \<le> 2 then 1 else 0)
      in (y, m, d))"

definition YearFromTime :: "int \<Rightarrow> int" where
  "YearFromTime t = fst (civil_from_days (Day t))"

definition MonthFromTime :: "int \<Rightarrow> int" where
  "MonthFromTime t = fst (snd (civil_from_days (Day t))) - 1"

definition DateFromTime :: "int \<Rightarrow> int" where
  "DateFromTime t = snd (snd (civil_from_days (Day t)))"

text \<open>\<open>MakeDay(year, month, date)\<close> with a month counted from 0.\<close>

definition MakeDay :: "int \<Rightarrow> int \<Rightarrow> int \<Rightarrow> int" where
  "MakeDay year month dt = days_from_civil (year + month div 12) (month mod 12 + 1) 1 + dt - 1"

definition TimeClip :: "int \<Rightarrow> int option" where
  "TimeClip t = (if \<bar>t\<bar> > 8640000000000000 then None else Some t)"

text \<open>
  What the engine decides and the program does not: how \<open>new Date(string)\<close> reads a
  string (ECMAScript fixes only the ISO format), and the offset of local time, where
  \<open>LocalTZA t True\<close> is the offset at the UTC time \<open>t\<close> and \<open>LocalTZA t False\<close> the
  offset at the local time \<open>t\<close>.
\<close>

record Date_engine =
  Date_parse :: "string \<Rightarrow> int option"
  LocalTZA :: "int \<Rightarrow> bool \<Rightarrow> int"

type_synonym Date = "int option"

definition LocalTime :: "Date_engine \<Rightarrow> int \<Rightarrow> int" where
  "LocalTime E t = t + LocalTZA E t True"

definition UTC :: "Date_engine \<Rightarrow> int \<Rightarrow> int" where
  "UTC E t = t - LocalTZA E t False"

definition new_Date :: "Date_engine \<Rightarrow> string \<Rightarrow> Date" where
  "new_Date E s = Date_parse E s"

text \<open>\<open>new Date(year, month, date)\<close>; a year from 0 to 99 means 1900 + year.\<close>

definition new_Date3 :: "Date_engine \<Rightarrow> int option \<Rightarrow> int \<Rightarrow> int \<Rightarrow> Date" where
  "new_Date3 E year month dt =
     (case year of
        None \<Rightarrow> None
      | Some y \<Rightarrow>
          (let yr = (if 0 \<le> y \<and> y \<le> 99 then 1900 + y else y)
           in TimeClip (UTC E (MakeDay yr month dt * msPerDay))))"

definition getFullYear :: "Date_engine \<Rightarrow> Date \<Rightarrow> int option" where
  "getFullYear E d = map_option (\<lambda>t. YearFromTime (LocalTime E t)) d"

definition getMonth :: "Date_engine \<Rightarrow> Date \<Rightarrow> int option" where
  "getMonth E d = map_option (\<lambda>t. MonthFromTime (LocalTime E t)) d"

definition getTime :: "Date \<Rightarrow> int option" where
  "getTime d = d"

section \<open>Utilities\<close>

definition getDayOfYear :: "Date_engine \<Rightarrow> Date \<Rightarrow> int option" where
  "getDayOfYear E d =
     (let start = new_Date3 E (getFullYear E d) 0 0
      in case (getTime d, getTime start) of
           (Some t, Some s) \<Rightarrow> Some ((t - s) div (1000 * 60 * 60 * 24))
         | _ \<Rightarrow> None)"

definition getMonthName :: "nat \<Rightarrow> string" where
  "getMonthName monthIndex =
     [''Jan'', ''Feb'', ''Mar'', ''Apr'', ''May'', ''Jun'',
      ''Jul'', ''Aug'', ''Sep'', ''Oct'', ''Nov'', ''Dec''] ! monthIndex"

record BoxPlot =
  box_min :: rat
  q1 :: rat
  median :: rat
  q3 :: rat
  box_max :: rat

definition getBoxPlotData :: "rat list \<Rightarrow> BoxPlot" where
  "getBoxPlotData data =
     (if length data = 0 then \<lparr>box_min = 0, q1 = 0, median = 0, q3 = 0, box_max = 0\<rparr>
      else
        (let sorted = sort data
         in \<lparr>box_min = sorted ! 0,
             q1 = sorted ! (length sorted div 4),
             median = sorted ! (length sorted div 2),
             q3 = sorted ! ((length sorted * 3) div 4),
             box_max = sorted ! (length sorted - 1)\<rparr>))"

section \<open>The aggregate views\<close>

text \<open>
  Each chart component computes its data from \<open>expenses\<close> and \<open>years\<close>. A chart entry
  is an object with one labelling field and one numeric property per year;
  \<open>years.forEach(y => { entry[y] = v })\<close> is a fold that assigns the properties in turn.
\<close>

record 'k entry =
  label :: 'k
  at_year :: "int \<rightharpoonup> rat"

definition assign_years :: "int list \<Rightarrow> (int \<Rightarrow> rat) \<Rightarrow> (int \<rightharpoonup> rat)" where
  "assign_years years v = fold (\<lambda>y ent. ent(y \<mapsto> v y)) years Map.empty"

text \<open>\<open>xs.reduce((s, e) => s + e.amount, 0)\<close>\<close>

definition reduce_amount :: "Expense list \<Rightarrow> rat" where
  "reduce_amount xs = foldl (\<lambda>s e. s + amount e) 0 xs"

definition in_year :: "Date_engine \<Rightarrow> int \<Rightarrow> Expense \<Rightarrow> bool" where
  "in_year E y e = (getFullYear E (new_Date E (date e)) = Some y)"

definition in_year_month :: "Date_engine \<Rightarrow> int \<Rightarrow> nat \<Rightarrow> Expense \<Rightarrow> bool" where
  "in_year_month E y m e =
     (let d = new_Date E (date e) in getFullYear E d = Some y \<and> getMonth E d = Some (int m))"

definition SeasonalityChart :: "Date_engine \<Rightarrow> Expense list \<Rightarrow> int list \<Rightarrow> string entry list" where
  "SeasonalityChart E expenses years =
     map (\<lambda>m. \<lparr>label = getMonthName m,
               at_year = assign_years years (\<lambda>y.
                 (let total = reduce_amount (filter (in_year_month E y m) expenses)
                  in toFixed 2 total))\<rparr>)
       [0..<12]"

text \<open>
  The heat map fills \<open>data[y][m]\<close> for every year and month and tracks the greatest cell
  in \<open>globalMax\<close>.
\<close>

type_synonym grid = "int \<rightharpoonup> (nat \<rightharpoonup> rat)"

definition Heatmap_months :: "Date_engine \<Rightarrow> Expense list \<Rightarrow> int \<Rightarrow> rat \<Rightarrow> (nat \<rightharpoonup> rat) \<times> rat" where
  "Heatmap_months E expenses y globalMax =
     fold (\<lambda>m (row, g).
            (let t = reduce_amount (filter (in_year_month E y m) expenses)
             in (row(m \<mapsto> t), if t > g then t else g)))
       [0..<12] (Map.empty, globalMax)"

definition HeatmapTable :: "Date_engine \<Rightarrow> Expense list \<Rightarrow> int list \<Rightarrow> grid \<times> rat" where
  "HeatmapTable E expenses years =
     fold (\<lambda>y (data, g).
            (let (row, g') = Heatmap_months E expenses y g in (data(y \<mapsto> row), g')))
       years (Map.empty, 0)"

text \<open>\<open>gridData[y][m]\<close>\<close>

definition cell :: "grid \<Rightarrow> int \<Rightarrow> nat \<Rightarrow> rat option" where
  "cell g y m = (case g y of None \<Rightarrow> None | Some row \<Rightarrow> row m)"

definition TransactionBoxPlot :: "Date_engine \<Rightarrow> Expense list \<Rightarrow> int list \<Rightarrow> (int \<times> BoxPlot) list" where
  "TransactionBoxPlot E expenses years =
     map (\<lambda>y. (y, getBoxPlotData (map amount (filter (in_year E y) expenses)))) years"

text \<open>
  The pace chart: per year an array of 367 day totals, \<open>arr[day] += e.amount\<close> for the
  records of the year, then the running sum written over the array in place, then one
  entry for each of the days \<open>d = i * 5\<close>, \<open>i\<close> from 0 to 73. The entry holds
  \<open>parseFloat(yearCumulative[y][d]?.toFixed(0) || '0')\<close>; the array has 367 elements and
  \<open>d\<close> is at most 365, so the element is there and neither \<open>?.\<close> nor \<open>||\<close> comes into play.
\<close>

definition add_day :: "Date_engine \<Rightarrow> Expense \<Rightarrow> rat list \<Rightarrow> rat list" where
  "add_day E e arr =
     (case getDayOfYear E (new_Date E (date e)) of
        None \<Rightarrow> arr
      | Some day \<Rightarrow>
          if day \<ge> 0 \<and> day \<le> 366 then arr[nat day := arr ! nat day + amount e] else arr)"

definition cumulate :: "rat list \<Rightarrow> rat list" where
  "cumulate arr =
     snd (fold (\<lambda>i (curr, a). (let c = curr + a ! i in (c, a[i := c]))) [0..<367] (0, arr))"

definition yearCumulative :: "Date_engine \<Rightarrow> Expense list \<Rightarrow> int \<Rightarrow> rat list" where
  "yearCumulative E expenses y =
     cumulate (fold (add_day E) (filter (in_year E y) expenses) (replicate 367 0))"

definition PaceOfSpendingChart :: "Date_engine \<Rightarrow> Expense list \<Rightarrow> int list \<Rightarrow> nat entry list" where
  "PaceOfSpendingChart E expenses years =
     map (\<lambda>i. (let d = i * 5
               in \<lparr>label = d,
                   at_year = assign_years years (\<lambda>y. toFixed 0 (yearCumulative E expenses y ! d))\<rparr>))
       [0..<74]"

text \<open>The records of day \<open>k\<close> of their year, and those of a day from 0 to \<open>d\<close>.\<close>

definition on_day :: "Date_engine \<Rightarrow> nat \<Rightarrow> Expense \<Rightarrow> bool" where
  "on_day E k e = (getDayOfYear E (new_Date E (date e)) = Some (int k))"

definition day_upto :: "Date_engine \<Rightarrow> nat \<Rightarrow> Expense \<Rightarrow> bool" where
  "day_upto E d e =
     (case getDayOfYear E (new_Date E (date e)) of
        None \<Rightarrow> False | Some day \<Rightarrow> 0 \<le> day \<and> day \<le> int d)"

text \<open>
  The category chart: one entry per member of \<open>CATEGORIES\<close>, those kept that are
  positive in some year, sorted by the comparator
  \<open>(b[currentYear] || 0) - (a[currentYear] || 0)\<close>. \<open>Array.prototype.sort\<close> is stable, and
  so is \<open>sort_key\<close>.
\<close>

definition in_category_year :: "Date_engine \<Rightarrow> string \<Rightarrow> int \<Rightarrow> Expense \<Rightarrow> bool" where
  "in_category_year E cat y e =
     (category e = cat \<and> getFullYear E (new_Date E (date e)) = Some y)"

definition positive_at :: "'k entry \<Rightarrow> int \<Rightarrow> bool" where
  "positive_at d y = (case at_year d y of None \<Rightarrow> False | Some v \<Rightarrow> v > 0)"

definition or_zero :: "'k entry \<Rightarrow> int option \<Rightarrow> rat" where
  "or_zero d y =
     (case y of None \<Rightarrow> 0 | Some y' \<Rightarrow> (case at_year d y' of None \<Rightarrow> 0 | Some v \<Rightarrow> v))"

definition cat_entry :: "Date_engine \<Rightarrow> Expense list \<Rightarrow> int list \<Rightarrow> string \<Rightarrow> string entry" where
  "cat_entry E expenses years cat =
     \<lparr>label = cat,
      at_year = assign_years years (\<lambda>y.
        toFixed 2 (reduce_amount (filter (in_category_year E cat y) expenses)))\<rparr>"

definition CategoryComparisonChart :: "Date_engine \<Rightarrow> Expense list \<Rightarrow> int list \<Rightarrow> string entry list" where
  "CategoryComparisonChart E expenses years =
     (let currentYear = (case years of [] \<Rightarrow> None | y # _ \<Rightarrow> Some y)
      in sort_key (\<lambda>d. - or_zero d currentYear)
           (filter (\<lambda>d. list_ex (positive_at d) years)
              (map (cat_entry E expenses years) CATEGORIES)))"

text \<open>
  The \<open>years\<close> that \<open>App\<close> passes to the charts: the distinct years of the records,
  newest first. A record with an invalid date puts \<open>NaN\<close> into the set, and the order
  that the comparator \<open>b - a\<close> then gives is left to the engine: \<open>None\<close> here.
\<close>

definition App_years :: "Date_engine \<Rightarrow> Expense list \<Rightarrow> int list option" where
  "App_years E expenses =
     (let ys = map (\<lambda>e. getFullYear E (new_Date E (date e))) expenses
      in if None \<in> set ys then None else Some (rev (sort (remdups (map the ys)))))"

section \<open>A reference engine\<close>

text \<open>
  For concrete evaluation: an engine in the UTC time zone that reads the date-only ISO
  form \<open>YYYY-MM-DD\<close>, which ECMAScript fixes as midnight UTC of that day, and takes
  every other string for an invalid date.
\<close>

definition DaysInMonth :: "int \<Rightarrow> int \<Rightarrow> int" where
  "DaysInMonth y m =
     days_from_civil (if m = 12 then y + 1 else y) (if m = 12 then 1 else m + 1) 1
       - days_from_civil y m 1"

definition iso_date_parse :: "string \<Rightarrow> int option" where
  "iso_date_parse s =
     (if length s = 10 \<and> s ! 4 = CHR ''-'' \<and> s ! 7 = CHR ''-''
         \<and> list_all isDigit (take 4 s) \<and> list_all isDigit (take 2 (drop 5 s))
         \<and> list_all isDigit (drop 8 s)
      then
        (let y = int (digits_value (take 4 s));
             m = int (digits_value (take 2 (drop 5 s)));
             d = int (digits_value (drop 8 s))
         in if 1 \<le> m \<and> m \<le> 12 \<and> 1 \<le> d \<and> d \<le> DaysInMonth y m
            then TimeClip (days_from_civil y m d * msPerDay) else None)
      else None)"

definition utc_engine :: Date_engine where
  "utc_engine = \<lparr>Date_parse = iso_date_parse, LocalTZA = (\<lambda>t isUTC. 0)\<rparr>"

section \<open>The import\<close>

text \<open>
  Papa Parse hands over \<open>res.data\<close>, the rows, each an object from header to cell text,
  and \<open>res.meta.fields\<close>, the headers in order. A property that a row lacks reads as
  \<open>undefined\<close> (\<open>None\<close>).
\<close>

type_synonym row = "string \<rightharpoonup> string"

record parse_result =
  data :: "row list"
  meta_fields :: "string list"

record FieldMapping =
  mdate :: string
  mamount :: string
  mdescription :: string
  mcategory :: string

text \<open>
  The clock, read twice while row \<open>i\<close> is mapped: \<open>now i\<close> is the value of \<open>Date.now()\<close>
  and \<open>today i\<close> the time value of \<open>new Date()\<close>.
\<close>

record clock =
  now :: "nat \<Rightarrow> int"
  today :: "nat \<Rightarrow> int"

definition pad_zero :: "nat \<Rightarrow> string \<Rightarrow> string" where
  "pad_zero w s = replicate (w - length s) (CHR ''0'') @ s"

text \<open>\<open>d.toISOString().split('T')[0]\<close> for a valid date: the UTC calendar date.\<close>

definition toISOString_date :: "int \<Rightarrow> string" where
  "toISOString_date t =
     (case civil_from_days (Day t) of
        (y, m, d) \<Rightarrow>
          (if 0 \<le> y \<and> y \<le> 9999 then pad_zero 4 (digits_of (nat y))
           else (if y < 0 then ''-'' else ''+'') @ pad_zero 6 (digits_of (nat \<bar>y\<bar>)))
          @ ''-'' @ pad_zero 2 (digits_of (nat m)) @ ''-'' @ pad_zero 2 (digits_of (nat d)))"

text \<open>The characters that \<open>replace(/[^\d.-]/g, '')\<close> keeps.\<close>

definition keeps :: "char \<Rightarrow> bool" where
  "keeps c = (isDigit c \<or> c = CHR ''.'' \<or> c = CHR ''-'')"

definition txn_id :: "int \<Rightarrow> nat \<Rightarrow> string" where
  "txn_id t i = ''txn-'' @ Number_toString t @ ''-'' @ Number_toString (int i)"

text \<open>The callback of \<open>importing.data.map\<close>; \<open>NaN || 0\<close> and \<open>0 || 0\<close> are 0.\<close>

definition rawAmt :: "FieldMapping \<Rightarrow> row \<Rightarrow> string" where
  "rawAmt mapping row = filter keeps (or_else (row (mamount mapping)) ''0'')"

definition normalize :: "clock \<Rightarrow> FieldMapping \<Rightarrow> nat \<Rightarrow> row \<Rightarrow> Expense" where
  "normalize clk mapping i row =
     \<lparr>id_field = txn_id (now clk i) i,
      date = or_else (row (mdate mapping)) (toISOString_date (today clk i)),
      description = or_else (row (mdescription mapping)) ''No Desc'',
      amount = (case parseFloat (rawAmt mapping row) of None \<Rightarrow> 0 | Some v \<Rightarrow> \<bar>v\<bar>),
      category = or_else (row (mcategory mapping)) ''Other'',
      account = ''Imported''\<rparr>"

definition newEx :: "clock \<Rightarrow> FieldMapping \<Rightarrow> row list \<Rightarrow> Expense list" where
  "newEx clk mapping rows =
     filter (\<lambda>e. amount e > 0)
       (map (\<lambda>(i, row). normalize clk mapping i row) (enumerate 0 rows))"

text \<open>The pre-filled choice of the mapping dialog for one canonical field.\<close>

definition toLowerCase :: "string \<Rightarrow> string" where
  "toLowerCase s =
     map (\<lambda>c. if 65 \<le> (of_char c :: nat) \<and> (of_char c :: nat) \<le> 90
               then char_of (of_char c + 32 :: nat) else c) s"

fun String_includes :: "string \<Rightarrow> string \<Rightarrow> bool" where
  "String_includes [] sub = (sub = [])"
| "String_includes (c # s) sub = (take (length sub) (c # s) = sub \<or> String_includes s sub)"

definition canonical_fields :: "string list" where
  "canonical_fields = [''date'', ''amount'', ''description'', ''category'']"

definition defaultValue :: "string list \<Rightarrow> string \<Rightarrow> string option" where
  "defaultValue headers field =
     (let first = (case headers of [] \<Rightarrow> None | f # _ \<Rightarrow> Some f)
      in case find (\<lambda>f. String_includes (toLowerCase f) field) headers of
           None \<Rightarrow> first
         | Some f \<Rightarrow> if f = [] then first else Some f)"

section \<open>The store and its persistence\<close>

text \<open>
  JSON values, and what the engine provides: \<open>JSON.parse\<close>, which throws on a malformed
  text (\<open>None\<close>), and \<open>JSON.stringify\<close>.
\<close>

datatype jsval =
  JNull | JBool bool | JNum rat | JStr string | JArr "jsval list" | JObj "(string \<times> jsval) list"

record JSON_engine =
  JSON_parse :: "string \<Rightarrow> jsval option"
  JSON_stringify :: "jsval \<Rightarrow> string"

text \<open>
  An expense as a JSON value, its properties in the order of the object literal of
  \<open>finishImport\<close>, and a JSON value read as an expense: the store is typed \<open>Expense[]\<close>.
\<close>

definition to_json :: "Expense \<Rightarrow> jsval" where
  "to_json e =
     JObj [(''id'', JStr (id_field e)), (''date'', JStr (date e)),
           (''description'', JStr (description e)), (''amount'', JNum (amount e)),
           (''category'', JStr (category e)), (''account'', JStr (account e))]"

definition str_prop :: "(string \<times> jsval) list \<Rightarrow> string \<Rightarrow> string option" where
  "str_prop kvs k = (case map_of kvs k of Some (JStr s) \<Rightarrow> Some s | _ \<Rightarrow> None)"

definition num_prop :: "(string \<times> jsval) list \<Rightarrow> string \<Rightarrow> rat option" where
  "num_prop kvs k = (case map_of kvs k of Some (JNum r) \<Rightarrow> Some r | _ \<Rightarrow> None)"

definition of_json :: "jsval \<Rightarrow> Expense option" where
  "of_json v =
     (case v of
        JObj kvs \<Rightarrow>
          (case (str_prop kvs ''id'', str_prop kvs ''date'', str_prop kvs ''description'',
                 num_prop kvs ''amount'', str_prop kvs ''category'', str_prop kvs ''account'') of
             (Some i, Some d, Some ds, Some a, Some c, Some ac) \<Rightarrow>
               Some \<lparr>id_field = i, date = d, description = ds, amount = a, category = c,
                     account = ac\<rparr>
           | _ \<Rightarrow> None)
      | _ \<Rightarrow> None)"

text \<open>
  The state of \<open>App\<close>: the two state variables that matter here, the item
  \<open>yoy_finance_v2\<close> of \<open>localStorage\<close>, and what was written to \<open>console.error\<close>.
\<close>

record App =
  expenses :: "Expense list"
  importing :: "parse_result option"
  storage :: "string option"
  console :: "string list"

datatype fault = TypeError | Untyped_store

text \<open>
  The second effect runs after every render in which \<open>expenses\<close> has changed: it writes
  the whole list.
\<close>

definition persist :: "JSON_engine \<Rightarrow> App \<Rightarrow> App" where
  "persist J st = st\<lparr>storage := Some (JSON_stringify J (JArr (map to_json (expenses st))))\<rparr>"

definition setExpenses :: "JSON_engine \<Rightarrow> (Expense list \<Rightarrow> Expense list) \<Rightarrow> App \<Rightarrow> App" where
  "setExpenses J f st = persist J (st\<lparr>expenses := f (expenses st)\<rparr>)"

text \<open>
  The first effect, run once after the first render, when \<open>expenses\<close> is still empty. What
  it does with the saved item: nothing when the item is absent or empty (\<open>if (saved)\<close>),
  a logged error when \<open>JSON.parse\<close> throws, nothing when the value is not an array, and
  \<open>setExpenses(parsed)\<close> otherwise.
\<close>

datatype load_outcome = Skipped | Logged | Ignored | Replaced "jsval list"

definition Array_isArray :: "jsval \<Rightarrow> bool" where
  "Array_isArray v = (case v of JArr vs \<Rightarrow> True | _ \<Rightarrow> False)"

definition load_effect :: "JSON_engine \<Rightarrow> string option \<Rightarrow> load_outcome" where
  "load_effect J saved =
     (case saved of
        None \<Rightarrow> Skipped
      | Some s \<Rightarrow>
          if s = [] then Skipped
          else (case JSON_parse J s of
                  None \<Rightarrow> Logged
                | Some v \<Rightarrow> (case v of JArr vs \<Rightarrow> Replaced vs | _ \<Rightarrow> Ignored)))"

text \<open>
  Mounting \<open>App\<close> on a saved item: both effects run on the empty list, and a replaced
  list is rendered and written again. An array whose members are not expenses would
  put values into the store that the type \<open>Expense[]\<close> excludes; the model stops there
  with \<open>Untyped_store\<close>.
\<close>

definition mount :: "JSON_engine \<Rightarrow> string option \<Rightarrow> fault + App" where
  "mount J saved =
     (let st0 = \<lparr>expenses = [], importing = None, storage = saved, console = []\<rparr>
      in case load_effect J saved of
           Skipped \<Rightarrow> Inr (persist J st0)
         | Ignored \<Rightarrow> Inr (persist J st0)
         | Logged \<Rightarrow> Inr (persist J (st0\<lparr>console := [''Persistence Load Error'']\<rparr>))
         | Replaced vs \<Rightarrow>
             (case those (map of_json vs) of
                None \<Rightarrow> Inl Untyped_store
              | Some xs \<Rightarrow> Inr (setExpenses J (\<lambda>_. xs) (persist J st0))))"

definition handleCsv :: "parse_result \<Rightarrow> App \<Rightarrow> App" where
  "handleCsv res st = st\<lparr>importing := Some res\<rparr>"

definition cancel :: "App \<Rightarrow> App" where
  "cancel st = st\<lparr>importing := None\<rparr>"

definition finishImport :: "JSON_engine \<Rightarrow> clock \<Rightarrow> FieldMapping \<Rightarrow> App \<Rightarrow> fault + App" where
  "finishImport J clk mapping st =
     (case importing st of
        None \<Rightarrow> Inl TypeError
      | Some res \<Rightarrow>
          Inr ((setExpenses J (\<lambda>p. p @ newEx clk mapping (data res)) st)\<lparr>importing := None\<rparr>))"

text \<open>\<open>confirm("Purge data?") && setExpenses([])\<close>\<close>

definition purge :: "JSON_engine \<Rightarrow> bool \<Rightarrow> App \<Rightarrow> App" where
  "purge J confirmed st = (if confirmed then setExpenses J (\<lambda>_. []) st else st)"

section \<open>A reference JSON engine\<close>

text \<open>
  For concrete evaluation: \<open>JSON.stringify\<close> and \<open>JSON.parse\<close> on texts of single-byte
  characters. A number is printed in plain decimal notation with at most 20 fractional
  digits. The parser descends with fuel, set to twice the length of the text plus two.
\<close>

definition is_ws :: "char \<Rightarrow> bool" where
  "is_ws c = (c = CHR 0x20 \<or> c = CHR 0x0A \<or> c = CHR 0x0D \<or> c = CHR 0x09)"

definition skip_ws :: "string \<Rightarrow> string" where
  "skip_ws s = dropWhile is_ws s"

definition hex_digit :: "nat \<Rightarrow> char" where
  "hex_digit n = (if n < 10 then char_of (48 + n) else char_of (87 + n))"

definition hex_val :: "char \<Rightarrow> nat option" where
  "hex_val c =
     (let n = (of_char c :: nat)
      in if 48 \<le> n \<and> n \<le> 57 then Some (n - 48)
         else if 97 \<le> n \<and> n \<le> 102 then Some (n - 87)
         else if 65 \<le> n \<and> n \<le> 70 then Some (n - 55)
         else None)"

definition quote_char :: "char \<Rightarrow> string" where
  "quote_char c =
     (if c = CHR 0x22 then [CHR 0x5C, CHR 0x22]
      else if c = CHR 0x5C then [CHR 0x5C, CHR 0x5C]
      else if c = CHR 0x08 then [CHR 0x5C, CHR ''b'']
      else if c = CHR 0x0C then [CHR 0x5C, CHR ''f'']
      else if c = CHR 0x0A then [CHR 0x5C, CHR ''n'']
      else if c = CHR 0x0D then [CHR 0x5C, CHR ''r'']
      else if c = CHR 0x09 then [CHR 0x5C, CHR ''t'']
      else if (of_char c :: nat) < 32
        then [CHR 0x5C, CHR ''u'', CHR ''0'', CHR ''0'',
              hex_digit (of_char c div 16), hex_digit (of_char c mod 16)]
      else [c])"

definition QuoteJSONString :: "string \<Rightarrow> string" where
  "QuoteJSONString s = [CHR 0x22] @ concat (map quote_char s) @ [CHR 0x22]"

fun fraction_digits :: "nat \<Rightarrow> rat \<Rightarrow> string" where
  "fraction_digits 0 x = []"
| "fraction_digits (Suc n) x =
     (if x = 0 then []
      else (let d = \<lfloor>x * 10\<rfloor> in digit_char (nat d) # fraction_digits n (x * 10 - of_int d)))"

definition number_text :: "rat \<Rightarrow> string" where
  "number_text x =
     (let ip = \<lfloor>\<bar>x\<bar>\<rfloor>; fd = fraction_digits 20 (\<bar>x\<bar> - of_int ip)
      in (if x < 0 then ''-'' else []) @ digits_of (nat ip) @ (if fd = [] then [] else CHR ''.'' # fd))"

fun join :: "string \<Rightarrow> string list \<Rightarrow> string" where
  "join sep [] = []"
| "join sep [x] = x"
| "join sep (x # y # ys) = x @ sep @ join sep (y # ys)"

primrec stringify :: "jsval \<Rightarrow> string" where
  "stringify JNull = ''null''"
| "stringify (JBool b) = (if b then ''true'' else ''false'')"
| "stringify (JNum x) = number_text x"
| "stringify (JStr s) = QuoteJSONString s"
| "stringify (JArr vs) = ''['' @ join '','' (map stringify vs) @ '']''"
| "stringify (JObj kvs) =
     ''{'' @ join '','' (map (\<lambda>kv. QuoteJSONString (fst kv) @ '':'' @ snd kv) (map (map_prod id stringify) kvs)) @ ''}''"

fun parse_string_body :: "string \<Rightarrow> (string \<times> string) option" where
  "parse_string_body [] = None"
| "parse_string_body (c # s) =
     (if c = CHR 0x22 then Some ([], s)
      else if c = CHR 0x5C then
        (case s of
           [] \<Rightarrow> None
         | e # s' \<Rightarrow>
             (if e = CHR ''u'' then
                (case s' of
                   a # b # h # l # s'' \<Rightarrow>
                     (case (hex_val a, hex_val b, hex_val h, hex_val l) of
                        (Some 0, Some 0, Some x, Some y) \<Rightarrow>
                          map_option (\<lambda>(t, r). (char_of (16 * x + y) # t, r)) (parse_string_body s'')
                      | _ \<Rightarrow> None)
                 | _ \<Rightarrow> None)
              else
                (case (if e = CHR 0x22 then Some (CHR 0x22)
                       else if e = CHR 0x5C then Some (CHR 0x5C)
                       else if e = CHR ''/'' then Some (CHR ''/'')
                       else if e = CHR ''b'' then Some (CHR 0x08)
                       else if e = CHR ''f'' then Some (CHR 0x0C)
                       else if e = CHR ''n'' then Some (CHR 0x0A)
                       else if e = CHR ''r'' then Some (CHR 0x0D)
                       else if e = CHR ''t'' then Some (CHR 0x09)
                       else None) of
                   None \<Rightarrow> None
                 | Some d \<Rightarrow> map_option (\<lambda>(t, r). (d # t, r)) (parse_string_body s'))))
      else if (of_char c :: nat) < 32 then None
      else map_option (\<lambda>(t, r). (c # t, r)) (parse_string_body s))"

text \<open>A JSON number: \<open>-? (0 | [1-9][0-9]*) (. [0-9]+)? ([eE] [+-]? [0-9]+)?\<close>\<close>

definition parse_exponent :: "string \<Rightarrow> (int \<times> string) option" where
  "parse_exponent s =
     (if s \<noteq> [] \<and> (hd s = CHR ''e'' \<or> hd s = CHR ''E'') then
        (let r = tl s;
             neg = (r \<noteq> [] \<and> hd r = CHR ''-'');
             r1 = (if r \<noteq> [] \<and> (hd r = CHR ''-'' \<or> hd r = CHR ''+'') then tl r else r);
             ds = takeWhile isDigit r1
         in if ds = [] then None
            else Some (if neg then - int (digits_value ds) else int (digits_value ds),
                       dropWhile isDigit r1))
      else Some (0, s))"

definition parse_number :: "string \<Rightarrow> (rat \<times> string) option" where
  "parse_number s =
     (let neg = (s \<noteq> [] \<and> hd s = CHR ''-'');
          r = (if neg then tl s else s);
          ip = takeWhile isDigit r;
          r1 = dropWhile isDigit r;
          has_frac = (r1 \<noteq> [] \<and> hd r1 = CHR ''.'');
          fp = (if has_frac then takeWhile isDigit (tl r1) else []);
          r2 = (if has_frac then dropWhile isDigit (tl r1) else r1);
          v = of_nat (digits_value ip) + of_nat (digits_value fp) / 10 ^ length fp
      in if ip = [] \<or> (length ip > 1 \<and> hd ip = CHR ''0'') \<or> (has_frac \<and> fp = []) then None
         else (case parse_exponent r2 of
                 None \<Rightarrow> None
               | Some (e, r3) \<Rightarrow>
                   Some ((if neg then - v else v) * (if e < 0 then 1 / 10 ^ nat (- e) else 10 ^ nat e),
                         r3)))"

definition set_prop :: "(string \<times> jsval) list \<Rightarrow> string \<times> jsval \<Rightarrow> (string \<times> jsval) list" where
  "set_prop kvs kv =
     (if fst kv \<in> fst ` set kvs then map (\<lambda>p. if fst p = fst kv then kv else p) kvs
      else kvs @ [kv])"

fun parse_value :: "nat \<Rightarrow> string \<Rightarrow> (jsval \<times> string) option"
  and parse_elems :: "nat \<Rightarrow> string \<Rightarrow> (jsval list \<times> string) option"
  and parse_members :: "nat \<Rightarrow> string \<Rightarrow> ((string \<times> jsval) list \<times> string) option"
where
  "parse_value 0 s = None"
| "parse_value (Suc n) s =
     (case skip_ws s of
        [] \<Rightarrow> None
      | c # r \<Rightarrow>
          if c = CHR ''['' then
            (case skip_ws r of
               [] \<Rightarrow> None
             | c' # r' \<Rightarrow>
                 if c' = CHR '']'' then Some (JArr [], r')
                 else map_option (\<lambda>(vs, r''). (JArr vs, r'')) (parse_elems n r))
          else if c = CHR ''{'' then
            (case skip_ws r of
               [] \<Rightarrow> None
             | c' # r' \<Rightarrow>
                 if c' = CHR ''}'' then Some (JObj [], r')
                 else map_option (\<lambda>(kvs, r''). (JObj (foldl set_prop [] kvs), r''))
                        (parse_members n r))
          else if c = CHR 0x22 then map_option (\<lambda>(t, r'). (JStr t, r')) (parse_string_body r)
          else if take 4 (c # r) = ''true'' then Some (JBool True, drop 4 (c # r))
          else if take 5 (c # r) = ''false'' then Some (JBool False, drop 5 (c # r))
          else if take 4 (c # r) = ''null'' then Some (JNull, drop 4 (c # r))
          else map_option (\<lambda>(x, r'). (JNum x, r')) (parse_number (c # r)))"
| "parse_elems 0 s = None"
| "parse_elems (Suc n) s =
     (case parse_value n s of
        None \<Rightarrow> None
      | Some (v, r) \<Rightarrow>
          (case skip_ws r of
             [] \<Rightarrow> None
           | c # r' \<Rightarrow>
               if c = CHR '','' then map_option (\<lambda>(vs, r''). (v # vs, r'')) (parse_elems n r')
               else if c = CHR '']'' then Some ([v], r')
               else None))"
| "parse_members 0 s = None"
| "parse_members (Suc n) s =
     (case skip_ws s of
        [] \<Rightarrow> None
      | q # r \<Rightarrow>
          if q \<noteq> CHR 0x22 then None
          else
            (case parse_string_body r of
               None \<Rightarrow> None
             | Some (k, r1) \<Rightarrow>
                 (case skip_ws r1 of
                    [] \<Rightarrow> None
                  | c # r2 \<Rightarrow>
                      if c \<noteq> CHR '':'' then None
                      else
                        (case parse_value n r2 of
                           None \<Rightarrow> None
                         | Some (v, r3) \<Rightarrow>
                             (case skip_ws r3 of
                                [] \<Rightarrow> None
                              | c' # r4 \<Rightarrow>
                                  if c' = CHR '','' then
                                    map_option (\<lambda>(kvs, r5). ((k, v) # kvs, r5)) (parse_members n r4)
                                  else if c' = CHR ''}'' then Some ([(k, v)], r4)
                                  else None)))))"

definition parse_text :: "string \<Rightarrow> jsval option" where
  "parse_text s =
     (case parse_value (2 * length s + 2) s of
        None \<Rightarrow> None
      | Some (v, r) \<Rightarrow> if skip_ws r = [] then Some v else None)"

definition json_engine :: JSON_engine where
  "json_engine = \<lparr>JSON_parse = parse_text, JSON_stringify = stringify\<rparr>"

text \<open>Sample data for the concrete evaluations below: a one-row file, a mapping, a clock.\<close>

definition sample_row :: "string \<Rightarrow> row" where
  "sample_row amt =
     [''Date'' \<mapsto> ''2024-01-05'', ''Amount'' \<mapsto> amt, ''Desc'' \<mapsto> ''Coffee'', ''Cat'' \<mapsto> ''Dining'']"

definition sample_csv :: parse_result where
  "sample_csv =
     \<lparr>data = [sample_row ''$50.00''], meta_fields = [''Date'', ''Amount'', ''Desc'', ''Cat'']\<rparr>"

definition sample_mapping :: FieldMapping where
  "sample_mapping =
     \<lparr>mdate = ''Date'', mamount = ''Amount'', mdescription = ''Desc'', mcategory = ''Cat''\<rparr>"

definition sample_clock :: "int \<Rightarrow> clock" where
  "sample_clock t = \<lparr>now = (\<lambda>i. t), today = (\<lambda>i. t)\<rparr>"

definition coffee :: "int \<Rightarrow> Expense" where
  "coffee t =
     \<lparr>id_field = txn_id t 0, date = ''2024-01-05'', description = ''Coffee'', amount = 50,
      category = ''Dining'', account = ''Imported''\<rparr>"

text \<open>A record as an import makes it, for the concrete evaluations below.\<close>

definition imported :: "string \<Rightarrow> string \<Rightarrow> rat \<Rightarrow> string \<Rightarrow> Expense" where
  "imported i d a c =
     \<lparr>id_field = i, date = d, description = ''No Desc'', amount = a, category = c,
      account = ''Imported''\<rparr>"

section \<open>Sessions\<close>

text \<open>
  The states that a session reaches: \<open>App\<close> is mounted on an empty \<open>localStorage\<close>, and
  then files are chosen, imports confirmed or cancelled, the data purged, the page
  reloaded. The set \<open>T\<close> collects the clock values that the imports so far have read; an
  import is admitted here when it reads none of them again, and a reload when it brings
  back the records that were stored.
\<close>

inductive reach :: "JSON_engine \<Rightarrow> int set \<Rightarrow> App \<Rightarrow> bool" for J where
  reach_mount: "mount J None = Inr st \<Longrightarrow> reach J {} st"
| reach_handleCsv: "reach J T st \<Longrightarrow> reach J T (handleCsv res st)"
| reach_cancel: "reach J T st \<Longrightarrow> reach J T (cancel st)"
| reach_finishImport:
    "reach J T st \<Longrightarrow> importing st = Some res \<Longrightarrow> \<forall>i < length (data res). now clk i \<notin> T \<Longrightarrow>
     finishImport J clk mapping st = Inr st' \<Longrightarrow>
     reach J (T \<union> now clk ` {..<length (data res)}) st'"
| reach_purge: "reach J T st \<Longrightarrow> reach J T (purge J confirmed st)"
| reach_reload:
    "reach J T st \<Longrightarrow> mount J (storage st) = Inr st' \<Longrightarrow> expenses st' = expenses st \<Longrightarrow>
     reach J T st'"

text \<open>
  A sample session on the reference engine: \<open>App\<close> is mounted on an empty \<open>localStorage\<close>
  and the one-row sample file is imported twice, the first time at the clock value \<open>t\<close>
  and the second time at \<open>t'\<close>.
\<close>

definition and_then :: "fault + App \<Rightarrow> (App \<Rightarrow> fault + App) \<Rightarrow> fault + App" where
  "and_then r f = (case r of Inl e \<Rightarrow> Inl e | Inr st \<Rightarrow> f st)"

definition import_sample :: "int \<Rightarrow> App \<Rightarrow> fault + App" where
  "import_sample t st =
     finishImport json_engine (sample_clock t) sample_mapping (handleCsv sample_csv st)"

definition sample_session :: "int \<Rightarrow> int \<Rightarrow> fault + App" where
  "sample_session t t' =
     and_then (and_then (mount json_engine None) (import_sample t)) (import_sample t')"

definition sample_state :: App where
  "sample_state = \<lparr>expenses = [coffee 1], importing = None, storage = None, console = []\<rparr>"

section \<open>Basic facts\<close>

lemma reduce_amount_sum: "reduce_amount xs = sum_list (map amount xs)"
proof -
  have "foldl (\<lambda>s e. s + amount e) a xs = a + sum_list (map amount xs)" for a
    by (induction xs arbitrary: a) (simp_all add: add.assoc)
  then show ?thesis by (simp add: reduce_amount_def)
qed

lemma fold_assign:
  "fold (\<lambda>y ent. ent(y \<mapsto> v y)) ys m0 y = (if y \<in> set ys then Some (v y) else m0 y)"
  by (induction ys arbitrary: m0) auto

lemma assign_years_apply:
  "assign_years ys v y = (if y \<in> set ys then Some (v y) else None)"
  by (simp add: assign_years_def fold_assign)

lemma calendar_samples:
  "civil_from_days 0 = (1970, 1, 1)"
  "civil_from_days (- 1) = (1969, 12, 31)"
  "civil_from_days 19782 = (2024, 2, 29)"
  "days_from_civil 2024 2 29 = 19782"
  "days_from_civil 2000 3 1 - days_from_civil 2000 2 28 = 2"
  "days_from_civil 1900 3 1 - days_from_civil 1900 2 28 = 1"
  "getDayOfYear utc_engine (new_Date utc_engine ''2024-01-01'') = Some 1"
  "getDayOfYear utc_engine (new_Date utc_engine ''2023-12-31'') = Some 365"
  "getMonth utc_engine (new_Date utc_engine ''2024-12-31'') = Some 11"
  "new_Date utc_engine ''2024-02-30'' = None"
  by code_simp+

text \<open>The day number of the first of January is ECMAScript's \<open>DayFromYear\<close>.\<close>

lemma days_from_civil_Jan1:
  "days_from_civil y 1 1
   = 365 * (y - 1970) + (y - 1969) div 4 - (y - 1901) div 100 + (y - 1601) div 400"
proof -
  define era where "era = (y - 1) div 400"
  define yoe where "yoe = (y - 1) - era * 400"
  have "yoe = (y - 1) mod 400"
    unfolding yoe_def era_def by (simp add: minus_div_mult_eq_mod)
  then have yoe: "0 \<le> yoe" "yoe < 400" by simp_all
  have y: "y = 400 * era + yoe + 1" unfolding yoe_def by simp
  have "(y - 1969) div 4 = (yoe + (100 * era - 492) * 4) div 4" unfolding y by simp
  also have "\<dots> = 100 * era - 492 + yoe div 4" by simp
  finally have a: "(y - 1969) div 4 = 100 * era - 492 + yoe div 4" .
  have "(y - 1901) div 100 = (yoe + (4 * era - 19) * 100) div 100" unfolding y by simp
  also have "\<dots> = 4 * era - 19 + yoe div 100" by simp
  finally have b: "(y - 1901) div 100 = 4 * era - 19 + yoe div 100" .
  have "(y - 1601) div 400 = (yoe + (era - 4) * 400) div 400" unfolding y by simp
  also have "\<dots> = era - 4 + yoe div 400" by simp
  also have "yoe div 400 = 0" using yoe by simp
  finally have c: "(y - 1601) div 400 = era - 4" by simp
  have "days_from_civil y 1 1 = era * 146097 + (yoe * 365 + yoe div 4 - yoe div 100 + 306) - 719468"
    unfolding days_from_civil_def Let_def era_def yoe_def by simp
  also have "\<dots> = 365 * (y - 1970) + (100 * era - 492 + yoe div 4) - (4 * era - 19 + yoe div 100) + (era - 4)"
    unfolding y by simp
  finally show ?thesis unfolding a b c .
qed

lemma imported_sel [simp]:
  "id_field (imported i d a c) = i" "date (imported i d a c) = d"
  "amount (imported i d a c) = a" "category (imported i d a c) = c"
  by (simp_all add: imported_def)

lemma toFixed_exact:
  assumes "x * 10 ^ f \<in> \<int>"
  shows "toFixed f x = x"
proof -
  have "\<bar>x\<bar> * 10 ^ f = \<bar>x * 10 ^ f\<bar>" by (simp add: abs_mult)
  also have "\<dots> \<in> \<int>" using assms by simp
  finally obtain k :: int where k: "\<bar>x\<bar> * 10 ^ f = of_int k" by (auto elim: Ints_cases)
  have fl: "\<lfloor>\<bar>x\<bar> * 10 ^ f + 1 / 2\<rfloor> = k" unfolding k by linarith
  have "toFixed f x = (if x < 0 then - of_int k else of_int k) / 10 ^ f"
    unfolding toFixed_def Let_def fl ..
  also have "\<dots> = (if x < 0 then - (\<bar>x\<bar> * 10 ^ f) else \<bar>x\<bar> * 10 ^ f) / 10 ^ f"
    unfolding k ..
  also have "\<dots> = x" by simp
  finally show ?thesis .
qed

section \<open>The transaction distribution\<close>

lemma getBoxPlotData_sorted:
  assumes "sorted s" and "mset s = mset amts" and "amts \<noteq> []"
  shows "getBoxPlotData amts =
           \<lparr>box_min = s ! 0, q1 = s ! (length amts div 4), median = s ! (length amts div 2),
            q3 = s ! ((length amts * 3) div 4), box_max = s ! (length amts - 1)\<rparr>"
proof -
  have "sort amts = s" using assms(1,2) by (simp add: properties_for_sort)
  moreover have "length s = length amts" using assms(2) by (metis size_mset)
  ultimately show ?thesis using assms(3) by (simp add: getBoxPlotData_def Let_def)
qed

lemma sorted_ends:
  assumes "sorted (s :: rat list)" and "s \<noteq> []"
  shows "s ! 0 = Min (set s)" and "s ! (length s - 1) = Max (set s)"
proof -
  have len: "0 < length s" using assms(2) by simp
  show "s ! 0 = Min (set s)"
  proof (rule Min_eqI [symmetric])
    show "finite (set s)" by simp
    show "s ! 0 \<in> set s" using len by simp
    fix y assume "y \<in> set s"
    then obtain i where "i < length s" and "s ! i = y" by (auto simp: in_set_conv_nth)
    then show "s ! 0 \<le> y" using sorted_nth_mono [OF assms(1), of 0 i] by simp
  qed
  show "s ! (length s - 1) = Max (set s)"
  proof (rule Max_eqI [symmetric])
    show "finite (set s)" by simp
    show "s ! (length s - 1) \<in> set s" using len by simp
    fix y assume "y \<in> set s"
    then obtain i where "i < length s" and "s ! i = y" by (auto simp: in_set_conv_nth)
    then show "y \<le> s ! (length s - 1)"
      using sorted_nth_mono [OF assms(1), of i "length s - 1"] by auto
  qed
qed

text \<open>
  C7. For the year at any position of \<open>years\<close> that has at least one transaction, the
  entry of the transaction-distribution view is the year with the five numbers
  \<open>s[0]\<close>, \<open>s[n div 4]\<close>, \<open>s[n div 2]\<close>, \<open>s[3n div 4]\<close>, \<open>s[n - 1]\<close>, where \<open>n\<close> is the number
  of that year's transactions and \<open>s\<close> their amounts in ascending order; the first is the
  least amount and the last the greatest. The indices are floor divisions and nothing
  is interpolated.
\<close>

theorem TransactionBoxPlot_five_number_summary:
  assumes "i < length years"
    and "amts = map amount (filter (in_year E (years ! i)) exps)"
    and "amts \<noteq> []"
    and "sorted s" and "mset s = mset amts"
  shows "TransactionBoxPlot E exps years ! i =
           (years ! i,
            \<lparr>box_min = s ! 0, q1 = s ! (length amts div 4), median = s ! (length amts div 2),
             q3 = s ! ((3 * length amts) div 4), box_max = s ! (length amts - 1)\<rparr>)
         \<and> s ! 0 = Min (set amts) \<and> s ! (length amts - 1) = Max (set amts)
         \<and> length s = length amts"
proof -
  have len: "length s = length amts" using assms(5) by (metis size_mset)
  have set: "set s = set amts" using assms(5) by (metis set_mset_mset)
  have ne: "s \<noteq> []" using len assms(3) by auto
  have "TransactionBoxPlot E exps years ! i = (years ! i, getBoxPlotData amts)"
    using assms(1,2) by (simp add: TransactionBoxPlot_def)
  moreover have "length amts * 3 = 3 * length amts" by simp
  ultimately show ?thesis
    using getBoxPlotData_sorted [OF assms(4,5,3)] sorted_ends [OF assms(4) ne] len set
    by simp
qed

theorem TransactionBoxPlot_five_number_summary_witness:
  "TransactionBoxPlot utc_engine
     [imported ''a'' ''2024-03-01'' 7 ''Rent'', imported ''b'' ''2023-03-01'' 4 ''Rent'',
      imported ''c'' ''2024-05-09'' 3 ''Dining'', imported ''d'' ''2024-05-10'' 9 ''Other'',
      imported ''e'' ''2024-12-31'' 1 ''Other'', imported ''f'' ''2024-07-04'' 5 ''Pets'']
     [2024, 2023] ! 0
   = (2024, \<lparr>box_min = 1, q1 = 3, median = 5, q3 = 7, box_max = 9\<rparr>)"
proof -
  let ?xs = "[imported ''a'' ''2024-03-01'' 7 ''Rent'', imported ''b'' ''2023-03-01'' 4 ''Rent'',
      imported ''c'' ''2024-05-09'' 3 ''Dining'', imported ''d'' ''2024-05-10'' 9 ''Other'',
      imported ''e'' ''2024-12-31'' 1 ''Other'', imported ''f'' ''2024-07-04'' 5 ''Pets'']"
  have d: "[7, 3, 9, 1, 5] = map amount (filter (in_year utc_engine ([2024, 2023] ! 0)) ?xs)"
    by code_simp
  have i: "0 < length [2024, 2023 :: int]" by simp
  have ne: "[7, 3, 9, 1, 5 :: rat] \<noteq> []" by simp
  have s: "sorted [1, 3, 5, 7, 9 :: rat]" by simp
  have m: "mset [1, 3, 5, 7, 9 :: rat] = mset [7, 3, 9, 1, 5]" by simp
  show ?thesis
    using TransactionBoxPlot_five_number_summary [OF i d ne s m] by simp
qed

section \<open>Seasonality and the heat map\<close>

lemma Heatmap_months_fold:
  "fst (fold (\<lambda>m (row, g).
            (let t = reduce_amount (filter (in_year_month E y m) exps)
             in (row(m \<mapsto> t), if t > g then t else g))) ms (row0, g0)) m
   = (if m \<in> set ms then Some (reduce_amount (filter (in_year_month E y m) exps)) else row0 m)"
  by (induction ms arbitrary: row0 g0) (auto simp: Let_def)

lemma Heatmap_months_row:
  "fst (Heatmap_months E exps y g) m
   = (if m < 12 then Some (reduce_amount (filter (in_year_month E y m) exps)) else None)"
  unfolding Heatmap_months_def Heatmap_months_fold by simp

lemma HeatmapTable_fold:
  "cell (fst (fold (\<lambda>y (amts, g).
            (let (row, g') = Heatmap_months E exps y g in (amts(y \<mapsto> row), g')))
          ys (data0, g0))) y m
   = (if y \<in> set ys
      then (if m < 12 then Some (reduce_amount (filter (in_year_month E y m) exps)) else None)
      else cell data0 y m)"
proof (induction ys arbitrary: data0 g0)
  case Nil
  then show ?case by simp
next
  case (Cons a ys)
  obtain row g' where h: "Heatmap_months E exps a g0 = (row, g')"
    by (cases "Heatmap_months E exps a g0")
  have row: "row m = (if m < 12 then Some (reduce_amount (filter (in_year_month E a m) exps)) else None)"
    using Heatmap_months_row [of E exps a g0 m] h by simp
  show ?case
    using Cons.IH [of "data0(a \<mapsto> row)" g'] h row by (simp add: cell_def)
qed

lemma HeatmapTable_cell:
  "cell (fst (HeatmapTable E exps years)) y m
   = (if y \<in> set years \<and> m < 12
      then Some (sum_list (map amount (filter (in_year_month E y m) exps))) else None)"
  unfolding HeatmapTable_def HeatmapTable_fold by (simp add: reduce_amount_sum cell_def)

lemma SeasonalityChart_value:
  "m < 12 \<Longrightarrow>
   at_year (SeasonalityChart E exps years ! m) y
   = (if y \<in> set years
      then Some (toFixed 2 (sum_list (map amount (filter (in_year_month E y m) exps))))
      else None)"
  unfolding SeasonalityChart_def by (simp add: assign_years_apply reduce_amount_sum del: upt_Suc)

lemma jan5_2024: "in_year_month utc_engine 2024 0 (imported i ''2024-01-05'' a c)"
  by code_simp

lemma toFixed_2_thousandth: "toFixed 2 (1 / 1000) = 0"
  by code_simp

lemma toFixed_2_cents: "toFixed 2 (1249 / 100) = 1249 / 100"
  by code_simp




section \<open>The category comparison\<close>

lemma CategoryComparisonChart_alt:
  "CategoryComparisonChart E exps years =
     sort_key (\<lambda>d. - or_zero d (case years of [] \<Rightarrow> None | y # _ \<Rightarrow> Some y))
       (filter (\<lambda>d. list_ex (positive_at d) years) (map (cat_entry E exps years) CATEGORIES))"
  unfolding CategoryComparisonChart_def Let_def ..

lemma cat_entry_sel [simp]:
  "label (cat_entry E exps years cat) = cat"
  "at_year (cat_entry E exps years cat) y =
     (if y \<in> set years
      then Some (toFixed 2 (sum_list (map amount (filter (in_category_year E cat y) exps))))
      else None)"
  by (simp_all add: cat_entry_def assign_years_apply reduce_amount_sum)

lemma positive_cat_entry:
  "list_ex (positive_at (cat_entry E exps years cat)) years
   \<longleftrightarrow> (\<exists>y \<in> set years.
          0 < toFixed 2 (sum_list (map amount (filter (in_category_year E cat y) exps))))"
  by (auto simp: list_ex_iff positive_at_def)

lemma CategoryComparisonChart_set:
  "set (CategoryComparisonChart E exps years) =
     {cat_entry E exps years c | c.
        c \<in> set CATEGORIES \<and>
        (\<exists>y \<in> set years.
           0 < toFixed 2 (sum_list (map amount (filter (in_category_year E c y) exps))))}"
  unfolding CategoryComparisonChart_alt by (auto simp: positive_cat_entry)

lemma distinct_CATEGORIES: "distinct CATEGORIES"
  by (simp add: CATEGORIES_def)

lemma length_CATEGORIES: "length CATEGORIES = 13"
  by (simp add: CATEGORIES_def)

lemma CategoryComparisonChart_distinct:
  "distinct (map label (CategoryComparisonChart E exps years))"
proof -
  let ?f = "filter (\<lambda>d. list_ex (positive_at d) years) (map (cat_entry E exps years) CATEGORIES)"
  have "map label (map (cat_entry E exps years) CATEGORIES) = CATEGORIES"
    by (simp add: comp_def)
  then have "distinct (map label (map (cat_entry E exps years) CATEGORIES))"
    using distinct_CATEGORIES by simp
  then have "distinct (map label ?f)" by (rule distinct_map_filter)
  then have "distinct ?f" and "inj_on label (set ?f)" by (simp_all add: distinct_map)
  then show ?thesis
    unfolding CategoryComparisonChart_alt by (simp add: distinct_map)
qed

lemma CategoryComparisonChart_sorted:
  "sorted (map (\<lambda>d. - or_zero d (case years of [] \<Rightarrow> None | y # _ \<Rightarrow> Some y))
            (CategoryComparisonChart E exps years))"
  unfolding CategoryComparisonChart_alt by (rule sorted_sort_key)

lemma CategoryComparisonChart_ignores_other_categories:
  "CategoryComparisonChart E (filter (\<lambda>e. category e \<in> set CATEGORIES) exps) years
   = CategoryComparisonChart E exps years"
proof -
  have "filter (in_category_year E cat y) (filter (\<lambda>e. category e \<in> set CATEGORIES) exps)
        = filter (in_category_year E cat y) exps" if "cat \<in> set CATEGORIES" for cat y
    using that by (auto simp: in_category_year_def intro: filter_cong)
  then have meq: "map (cat_entry E (filter (\<lambda>e. category e \<in> set CATEGORIES) exps) years) CATEGORIES
             = map (cat_entry E exps years) CATEGORIES"
    by (simp add: cat_entry_def)
  show ?thesis unfolding CategoryComparisonChart_alt meq ..
qed

lemma or_zero_cat_entry:
  "or_zero (cat_entry E exps years c) (case years of [] \<Rightarrow> None | y # _ \<Rightarrow> Some y)
   = (if years = [] then 0
      else toFixed 2 (sum_list (map amount (filter (in_category_year E c (hd years)) exps))))"
  by (cases years) (simp_all add: or_zero_def)

lemma CategoryComparisonChart_descending:
  "sorted_wrt (\<lambda>a b.
      toFixed 2 (sum_list (map amount (filter (in_category_year E (label a) (hd years)) exps)))
      \<ge> toFixed 2 (sum_list (map amount (filter (in_category_year E (label b) (hd years)) exps))))
     (CategoryComparisonChart E exps years)"
proof (cases "years = []")
  case True
  then have "CategoryComparisonChart E exps years = []"
    unfolding CategoryComparisonChart_alt by simp
  then show ?thesis by simp
next
  case False
  let ?k = "\<lambda>d. - or_zero d (case years of [] \<Rightarrow> None | y # _ \<Rightarrow> Some y)"
  have "sorted_wrt (\<lambda>a b. ?k a \<le> ?k b) (CategoryComparisonChart E exps years)"
    using CategoryComparisonChart_sorted [of years E exps] by (simp add: sorted_map)
  then show ?thesis
  proof (rule sorted_wrt_mono_rel [rotated])
    fix a b
    assume "a \<in> set (CategoryComparisonChart E exps years)"
      and "b \<in> set (CategoryComparisonChart E exps years)"
      and "?k a \<le> ?k b"
    then show "toFixed 2 (sum_list (map amount (filter (in_category_year E (label a) (hd years)) exps)))
      \<ge> toFixed 2 (sum_list (map amount (filter (in_category_year E (label b) (hd years)) exps)))"
      using False by (auto simp: CategoryComparisonChart_set or_zero_cat_entry)
  qed
qed

lemma App_years_descending:
  assumes "App_years E exps = Some years"
  shows "sorted_wrt (\<ge>) years \<and> distinct years"
proof -
  let ?ys = "map (\<lambda>e. getFullYear E (new_Date E (date e))) exps"
  have y: "years = rev (sort (remdups (map the ?ys)))"
    using assms by (simp add: App_years_def Let_def split: if_splits)
  have "sorted_wrt (\<le>) (sort (remdups (map the ?ys)))" by simp
  then have "sorted_wrt (\<ge>) (rev (sort (remdups (map the ?ys))))"
    by (simp add: sorted_wrt_rev)
  then show ?thesis by (simp add: y)
qed

lemma hd_descending:
  assumes "years \<noteq> []" and "sorted_wrt (\<ge>) (years :: int list)"
  shows "hd years = Max (set years)"
proof -
  obtain y ys where ys: "years = y # ys" using assms(1) by (cases years) auto
  have "Max (set (y # ys)) = y"
    using assms(2) unfolding ys by (intro Max_eqI) auto
  then show ?thesis by (simp add: ys)
qed

lemma year_jan5_2024: "getFullYear utc_engine (new_Date utc_engine ''2024-01-05'') = Some 2024"
  by code_simp

lemma year_jan5_2023: "getFullYear utc_engine (new_Date utc_engine ''2023-01-05'') = Some 2023"
  by code_simp

lemma Pets_not_listed: "''Pets'' \<notin> set CATEGORIES"
  by (simp add: CATEGORIES_def)

lemma toFixed_0 [simp]: "toFixed f 0 = 0"
  by (simp add: toFixed_def floor_eq_iff)

lemma CategoryComparisonChart_labels:
  "set (map label (CategoryComparisonChart E exps years))
     = {c \<in> set CATEGORIES. \<exists>y \<in> set years.
          0 < toFixed 2 (sum_list (map amount (filter (in_category_year E c y) exps)))}"
  (is "?L = ?R")
proof
  show "?L \<subseteq> ?R" by (auto simp: CategoryComparisonChart_set)
  show "?R \<subseteq> ?L"
  proof
    fix c assume c: "c \<in> ?R"
    then have "cat_entry E exps years c \<in> set (CategoryComparisonChart E exps years)"
      unfolding CategoryComparisonChart_set by blast
    then have "label (cat_entry E exps years c) \<in> ?L" by (simp del: cat_entry_sel)
    then show "c \<in> ?L" by simp
  qed
qed

lemma CategoryComparisonChart_empty:
  assumes "\<And>c y. c \<in> set CATEGORIES \<Longrightarrow> y \<in> set years \<Longrightarrow>
            toFixed 2 (sum_list (map amount (filter (in_category_year E c y) exps))) \<le> 0"
  shows "CategoryComparisonChart E exps years = []"
proof -
  have "set (CategoryComparisonChart E exps years) = {}"
    unfolding CategoryComparisonChart_set using assms by (auto simp: not_less [symmetric])
  then show ?thesis by simp
qed




text \<open>
  C10. The labels of the category-comparison view are among the 13 members of
  \<open>CATEGORIES\<close>, and the view of a record set is the view of that set without the records
  whose category is outside \<open>CATEGORIES\<close>: such a record contributes to no row.
\<close>

theorem CategoryComparisonChart_only_CATEGORIES:
  "set (map label (CategoryComparisonChart E exps years)) \<subseteq> set CATEGORIES
   \<and> length CATEGORIES = 13
   \<and> CategoryComparisonChart E (filter (\<lambda>e. category e \<in> set CATEGORIES) exps) years
     = CategoryComparisonChart E exps years"
  using CategoryComparisonChart_ignores_other_categories [of E exps years]
  by (auto simp: CategoryComparisonChart_set length_CATEGORIES)

theorem CategoryComparisonChart_only_CATEGORIES_witness:
  "CategoryComparisonChart utc_engine
     (filter (\<lambda>e. category e \<in> set CATEGORIES)
        [imported ''a'' ''2024-01-05'' 100 ''Pets'', imported ''b'' ''2024-01-05'' 50 ''Dining'']) [2024]
   = CategoryComparisonChart utc_engine
       [imported ''a'' ''2024-01-05'' 100 ''Pets'', imported ''b'' ''2024-01-05'' 50 ''Dining''] [2024]
   \<and> filter (\<lambda>e. category e \<in> set CATEGORIES)
        [imported ''a'' ''2024-01-05'' 100 ''Pets'', imported ''b'' ''2024-01-05'' 50 ''Dining'']
     = [imported ''b'' ''2024-01-05'' 50 ''Dining'']"
  using CategoryComparisonChart_only_CATEGORIES [of utc_engine
     "[imported ''a'' ''2024-01-05'' 100 ''Pets'', imported ''b'' ''2024-01-05'' 50 ''Dining'']" "[2024]"]
  by (simp add: CATEGORIES_def)

section \<open>The pace of spending\<close>

lemma length_add_day [simp]: "length (add_day E e arr) = length arr"
  by (simp add: add_day_def split: option.splits)

lemma length_fold_add_day [simp]: "length (fold (add_day E) xs arr) = length arr"
  by (induction xs arbitrary: arr) simp_all

lemma add_day_nth:
  assumes "length arr = 367" and "k < 367"
  shows "add_day E e arr ! k = arr ! k + (if on_day E k e then amount e else 0)"
proof (cases "getDayOfYear E (new_Date E (date e))")
  case None
  then show ?thesis by (simp add: add_day_def on_day_def)
next
  case (Some day)
  show ?thesis
  proof (cases "0 \<le> day \<and> day \<le> 366")
    case True
    then have "nat day < length arr" using assms(1) by linarith
    moreover have "nat day = k \<longleftrightarrow> day = int k" using True by auto
    ultimately show ?thesis
      using Some True assms by (simp add: add_day_def on_day_def nth_list_update)
  next
    case False
    then have "day \<noteq> int k" using assms(2) by auto
    then show ?thesis using Some False by (auto simp: add_day_def on_day_def)
  qed
qed

lemma fold_add_day_nth:
  assumes "length arr = 367" and "k < 367"
  shows "fold (add_day E) xs arr ! k = arr ! k + sum_list (map amount (filter (on_day E k) xs))"
  using assms
proof (induction xs arbitrary: arr)
  case Nil
  then show ?case by simp
next
  case (Cons e xs)
  have "fold (add_day E) (e # xs) arr ! k
        = add_day E e arr ! k + sum_list (map amount (filter (on_day E k) xs))"
    using Cons.IH [of "add_day E e arr"] Cons.prems by simp
  then show ?case using add_day_nth [OF Cons.prems, of E e] by simp
qed

lemma cumulate_fold:
  "n \<le> length arr \<Longrightarrow>
   fold (\<lambda>i (curr, a). (let c = curr + a ! i in (c, a[i := c]))) [0..<n] (0, arr)
   = (sum_list (take n arr), map (\<lambda>i. sum_list (take (Suc i) arr)) [0..<n] @ drop n arr)"
proof (induction n)
  case 0
  then show ?case by simp
next
  case (Suc n)
  then have n: "n < length arr" by simp
  let ?pre = "map (\<lambda>i. sum_list (take (Suc i) arr)) [0..<n]"
  have len: "length ?pre = n" by simp
  have "(?pre @ drop n arr) ! n = arr ! n"
    using n by (simp add: nth_append)
  moreover have "(?pre @ drop n arr)[n := v] = ?pre @ [v] @ drop (Suc n) arr" for v
    using n len by (simp add: list_update_append Cons_nth_drop_Suc [symmetric])
  moreover have "sum_list (take n arr) + arr ! n = sum_list (take (Suc n) arr)"
    using n by (simp add: take_Suc_conv_app_nth)
  ultimately show ?case
    using Suc.IH n by (simp add: Let_def)
qed

lemma cumulate_nth:
  assumes "length arr = 367" and "d < 367"
  shows "cumulate arr ! d = sum_list (take (Suc d) arr)"
proof -
  have "cumulate arr = map (\<lambda>i. sum_list (take (Suc i) arr)) [0..<367]"
    unfolding cumulate_def using cumulate_fold [of 367 arr] assms(1) by simp
  then show ?thesis using assms(2) by (simp del: upt_Suc)
qed


lemma on_day_sum:
  "(\<Sum>k = 0..<Suc d. if on_day E k e then amount e else 0)
   = (if day_upto E d e then amount e else 0)"
proof (cases "getDayOfYear E (new_Date E (date e))")
  case None
  then show ?thesis by (simp add: on_day_def day_upto_def)
next
  case (Some day)
  show ?thesis
  proof (cases "0 \<le> day \<and> day \<le> int d")
    case True
    have "on_day E k e \<longleftrightarrow> k = nat day" for k
      using Some True by (auto simp: on_day_def)
    then have "(\<Sum>k = 0..<Suc d. if on_day E k e then amount e else 0)
               = (\<Sum>k = 0..<Suc d. if k = nat day then amount e else 0)"
      by simp
    also have "\<dots> = (if nat day \<in> {0..<Suc d} then amount e else 0)"
      by (simp only: sum.delta finite_atLeastLessThan)
    also have "\<dots> = amount e" using True by auto
    finally have s: "(\<Sum>k = 0..<Suc d. if on_day E k e then amount e else 0) = amount e" .
    have dz: "day_upto E d e" using Some True by (simp add: day_upto_def)
    show ?thesis unfolding s using dz by simp
  next
    case False
    then have "\<not> on_day E k e" if "k < Suc d" for k
      using Some that by (auto simp: on_day_def)
    then have s: "(\<Sum>k = 0..<Suc d. if on_day E k e then amount e else 0) = 0"
      by (intro sum.neutral) auto
    have dz: "\<not> day_upto E d e" using Some False by (simp add: day_upto_def)
    show ?thesis unfolding s using dz by simp
  qed
qed

lemma regroup_days:
  "(\<Sum>k = 0..<Suc d. sum_list (map amount (filter (on_day E k) xs)))
   = sum_list (map amount (filter (day_upto E d) xs))"
proof (induction xs)
  case Nil
  then show ?case by simp
next
  case (Cons e xs)
  have "(\<Sum>k = 0..<Suc d. sum_list (map amount (filter (on_day E k) (e # xs))))
        = (\<Sum>k = 0..<Suc d. (if on_day E k e then amount e else 0)
             + sum_list (map amount (filter (on_day E k) xs)))"
    by (intro sum.cong) auto
  also have "\<dots> = (if day_upto E d e then amount e else 0)
                    + sum_list (map amount (filter (day_upto E d) xs))"
    unfolding sum.distrib on_day_sum Cons.IH ..
  finally show ?case by simp
qed

lemma yearCumulative_nth:
  assumes "d < 367"
  shows "yearCumulative E exps y ! d
         = sum_list (map amount (filter (day_upto E d) (filter (in_year E y) exps)))"
proof -
  let ?ys = "filter (in_year E y) exps"
  let ?arr = "fold (add_day E) ?ys (replicate 367 0)"
  have len: "length ?arr = 367" by simp
  have nth: "?arr ! k = sum_list (map amount (filter (on_day E k) ?ys))" if "k < 367" for k
    using fold_add_day_nth [of "replicate 367 0" k E ?ys] that by simp
  have "yearCumulative E exps y ! d = sum_list (take (Suc d) ?arr)"
    unfolding yearCumulative_def using cumulate_nth [OF len assms] .
  also have "\<dots> = (\<Sum>k = 0..<Suc d. take (Suc d) ?arr ! k)"
    using assms len by (simp add: sum_list_sum_nth del: upt_Suc take_Suc_Cons)
  also have "\<dots> = (\<Sum>k = 0..<Suc d. sum_list (map amount (filter (on_day E k) ?ys)))"
    using assms by (intro sum.cong) (auto simp: nth)
  also have "\<dots> = sum_list (map amount (filter (day_upto E d) ?ys))"
    by (rule regroup_days)
  finally show ?thesis .
qed

lemma PaceOfSpendingChart_nth:
  assumes "i < 74"
  shows "label (PaceOfSpendingChart E exps years ! i) = i * 5"
    and "at_year (PaceOfSpendingChart E exps years ! i) y
         = (if y \<in> set years
            then Some (toFixed 0 (sum_list (map amount
                   (filter (day_upto E (i * 5)) (filter (in_year E y) exps)))))
            else None)"
proof -
  have d: "i * 5 < 367" using assms by simp
  have e: "PaceOfSpendingChart E exps years ! i
           = \<lparr>label = i * 5,
              at_year = assign_years years (\<lambda>y. toFixed 0 (yearCumulative E exps y ! (i * 5)))\<rparr>"
    unfolding PaceOfSpendingChart_def using assms by (simp add: Let_def del: upt_Suc)
  show "label (PaceOfSpendingChart E exps years ! i) = i * 5" by (simp add: e)
  show "at_year (PaceOfSpendingChart E exps years ! i) y
         = (if y \<in> set years
            then Some (toFixed 0 (sum_list (map amount
                   (filter (day_upto E (i * 5)) (filter (in_year E y) exps)))))
            else None)"
    by (simp add: e assign_years_apply yearCumulative_nth [OF d])
qed

lemma last_PaceOfSpendingChart:
  "last (PaceOfSpendingChart E exps years) = PaceOfSpendingChart E exps years ! 73"
proof -
  have "length (PaceOfSpendingChart E exps years) = 74"
    by (simp add: PaceOfSpendingChart_def del: upt_Suc)
  moreover from this have "PaceOfSpendingChart E exps years \<noteq> []" by auto
  ultimately show ?thesis by (simp add: last_conv_nth)
qed

text \<open>
  What the last sample holds in general: the sum of the year's amounts dated on the days
  0 to 365, rounded to an integer.
\<close>

lemma PaceOfSpendingChart_last_sample:
  "label (last (PaceOfSpendingChart E exps years)) = 365"
  "y \<in> set years \<Longrightarrow>
   at_year (last (PaceOfSpendingChart E exps years)) y
   = Some (toFixed 0 (sum_list (map amount
        (filter (day_upto E 365) (filter (in_year E y) exps)))))"
  using PaceOfSpendingChart_nth [where i = 73 and E = E and exps = exps and years = years]
  by (simp_all add: last_PaceOfSpendingChart)

lemma toFixed_error: "\<bar>toFixed f x - x\<bar> \<le> 1 / (2 * 10 ^ f)"
proof -
  define p :: rat where "p = 10 ^ f"
  have p: "0 < p" by (simp add: p_def)
  define n where "n = \<lfloor>\<bar>x\<bar> * p + 1 / 2\<rfloor>"
  have lo: "of_int n \<le> \<bar>x\<bar> * p + 1 / 2" and hi: "\<bar>x\<bar> * p + 1 / 2 < of_int n + 1"
    unfolding n_def by linarith+
  have a: "\<bar>of_int n - \<bar>x\<bar> * p\<bar> \<le> 1 / 2" using lo hi by linarith
  have "\<bar>of_int n - \<bar>x\<bar> * p\<bar> / p \<le> (1 / 2) / p"
    by (rule divide_right_mono [OF a]) (use p in simp)
  moreover have eq: "of_int n / p - \<bar>x\<bar> = (of_int n - \<bar>x\<bar> * p) / p"
    using p by (simp add: diff_divide_distrib)
  have "\<bar>of_int n / p - \<bar>x\<bar>\<bar> = \<bar>of_int n - \<bar>x\<bar> * p\<bar> / p"
    unfolding eq abs_divide using p by simp
  ultimately have b: "\<bar>of_int n / p - \<bar>x\<bar>\<bar> \<le> 1 / (2 * p)" by simp
  have "toFixed f x = (if x < 0 then - (of_int n / p) else of_int n / p)"
    by (simp add: toFixed_def n_def p_def Let_def)
  then have "\<bar>toFixed f x - x\<bar> = \<bar>of_int n / p - \<bar>x\<bar>\<bar>"
    by (auto simp: abs_if)
  then show ?thesis using b by (simp add: p_def)
qed

lemma dec31_2024:
  "getDayOfYear utc_engine (new_Date utc_engine ''2024-12-31'') = Some 366"
  "in_year utc_engine 2024 (imported i ''2024-12-31'' a c)"
  by code_simp+

text \<open>
  C2, at the failing input. The last entry of the pace view is that of day 365. A record
  dated 2024-12-31 is on day 366 of its year: with that record alone, of amount 100, the
  last sampled value of 2024 is 0 while the year's transactions sum to 100.
\<close>

theorem PaceOfSpendingChart_leap_day:
  "label (last (PaceOfSpendingChart utc_engine [imported ''txn-1-0'' ''2024-12-31'' 100 ''Rent''] [2024])) = 365
   \<and> at_year (last (PaceOfSpendingChart utc_engine [imported ''txn-1-0'' ''2024-12-31'' 100 ''Rent''] [2024])) 2024
       = Some 0
   \<and> sum_list (map amount (filter (in_year utc_engine 2024) [imported ''txn-1-0'' ''2024-12-31'' 100 ''Rent''])) = 100
   \<and> getDayOfYear utc_engine (new_Date utc_engine ''2024-12-31'') = Some 366"
  by (simp add: PaceOfSpendingChart_last_sample dec31_2024 day_upto_def)

section \<open>The import: identifiers and amounts\<close>

lemma isDigit_digit_char: "d < 10 \<Longrightarrow> isDigit (digit_char d)"
  by (simp add: isDigit_def digit_char_def)

lemma digit_val_digit_char: "d < 10 \<Longrightarrow> digit_val (digit_char d) = d"
  by (simp add: digit_val_def digit_char_def)

lemma digits_of_digits: "list_all isDigit (digits_of n)"
proof (induction n rule: digits_of.induct)
  case (1 n)
  show ?case
  proof (cases "n < 10")
    case True
    then show ?thesis by (subst digits_of.simps) (simp add: isDigit_digit_char)
  next
    case False
    then show ?thesis
      using "1.IH" by (subst digits_of.simps) (simp add: isDigit_digit_char)
  qed
qed

lemma digits_value_snoc: "digits_value (ds @ [c]) = 10 * digits_value ds + digit_val c"
  by (simp add: digits_value_def)

lemma digits_value_digits_of: "digits_value (digits_of n) = n"
proof (induction n rule: digits_of.induct)
  case (1 n)
  show ?case
  proof (cases "n < 10")
    case True
    then show ?thesis
      by (subst digits_of.simps) (simp add: digits_value_def digit_val_digit_char)
  next
    case False
    then have "digits_value (digits_of (n div 10)) = n div 10" using "1.IH" by simp
    then show ?thesis
      using False
      by (subst digits_of.simps) (simp add: digits_value_snoc digit_val_digit_char)
  qed
qed

lemma digits_of_inj: "digits_of a = digits_of b \<Longrightarrow> a = b"
  by (metis digits_value_digits_of)

lemma digits_of_nonempty: "digits_of n \<noteq> []"
  by (subst digits_of.simps) simp

lemma dash_not_digit: "\<not> isDigit (CHR ''-'')"
  by (simp add: isDigit_def)

lemma digits_of_no_dash: "CHR ''-'' \<notin> set (digits_of n)"
  using digits_of_digits [of n] dash_not_digit by (auto simp: list_all_iff)

lemma Number_toString_inj: "Number_toString a = Number_toString b \<Longrightarrow> a = b"
proof -
  assume eq: "Number_toString a = Number_toString b"
  have hd_nonneg: "hd (Number_toString i) \<noteq> CHR ''-''" if "0 \<le> i" for i
  proof -
    have "hd (digits_of (nat i)) \<in> set (digits_of (nat i))"
      using digits_of_nonempty by simp
    then show ?thesis using that digits_of_no_dash [of "nat i"]
      by (auto simp: Number_toString_def)
  qed
  have hd_neg: "hd (Number_toString i) = CHR ''-''" if "i < 0" for i
    using that by (simp add: Number_toString_def)
  consider "a < 0" "b < 0" | "0 \<le> a" "0 \<le> b" | "a < 0" "0 \<le> b" | "0 \<le> a" "b < 0"
    by linarith
  then show "a = b"
  proof cases
    case 1
    then have "digits_of (nat (- a)) = digits_of (nat (- b))"
      using eq by (simp add: Number_toString_def)
    then have "nat (- a) = nat (- b)" by (rule digits_of_inj)
    then show ?thesis using 1 by linarith
  next
    case 2
    then have "digits_of (nat a) = digits_of (nat b)"
      using eq by (simp add: Number_toString_def)
    then have "nat a = nat b" by (rule digits_of_inj)
    then show ?thesis using 2 by linarith
  next
    case 3
    then show ?thesis using hd_neg [of a] hd_nonneg [of b] eq by simp
  next
    case 4
    then show ?thesis using hd_neg [of b] hd_nonneg [of a] eq by simp
  qed
qed

lemma split_at_first:
  assumes "c \<notin> set xs" and "c \<notin> set xs'" and "xs @ c # ys = xs' @ c # ys'"
  shows "xs = xs' \<and> ys = ys'"
  using assms
proof (induction xs arbitrary: xs')
  case Nil
  then show ?case by (cases xs') auto
next
  case (Cons x xs)
  then show ?case by (cases xs') auto
qed

lemma split_at_last_dash:
  assumes "A @ CHR ''-'' # B = A' @ CHR ''-'' # B'"
    and "CHR ''-'' \<notin> set B" and "CHR ''-'' \<notin> set B'"
  shows "A = A' \<and> B = B'"
proof -
  have "rev B @ CHR ''-'' # rev A = rev B' @ CHR ''-'' # rev A'"
    using arg_cong [OF assms(1), of rev] by simp
  moreover have "CHR ''-'' \<notin> set (rev B)" "CHR ''-'' \<notin> set (rev B')" using assms(2,3) by simp_all
  ultimately have "rev B = rev B' \<and> rev A = rev A'"
    by (intro split_at_first)
  then show ?thesis by simp
qed

lemma txn_id_inj: "txn_id t i = txn_id t' i' \<Longrightarrow> t = t' \<and> i = i'"
proof -
  assume "txn_id t i = txn_id t' i'"
  then have "Number_toString t @ CHR ''-'' # Number_toString (int i)
             = Number_toString t' @ CHR ''-'' # Number_toString (int i')"
    by (simp add: txn_id_def)
  moreover have "CHR ''-'' \<notin> set (Number_toString (int k))" for k
    using digits_of_no_dash by (simp add: Number_toString_def)
  ultimately have "Number_toString t = Number_toString t'
                   \<and> Number_toString (int i) = Number_toString (int i')"
    by (intro split_at_last_dash)
  then show ?thesis using Number_toString_inj by fastforce
qed

lemma amount_normalize:
  "amount (normalize clk mapping i row)
   = (case parseFloat (rawAmt mapping row) of None \<Rightarrow> 0 | Some v \<Rightarrow> \<bar>v\<bar>)"
  by (simp add: normalize_def)

lemma id_normalize [simp]: "id_field (normalize clk mapping i row) = txn_id (now clk i) i"
  by (simp add: normalize_def)

lemma positive_normalize:
  "0 < amount (normalize clk mapping i row)
   \<longleftrightarrow> (case parseFloat (rawAmt mapping row) of None \<Rightarrow> False | Some v \<Rightarrow> v \<noteq> 0)"
  by (simp add: amount_normalize split: option.splits)

lemma newEx_alt:
  "newEx clk mapping rows
   = map (\<lambda>(i, row). normalize clk mapping i row)
       (filter (\<lambda>(i, row). case parseFloat (rawAmt mapping row) of None \<Rightarrow> False | Some v \<Rightarrow> v \<noteq> 0)
          (enumerate 0 rows))"
proof -
  have "(\<lambda>e. 0 < amount e) \<circ> (\<lambda>(i, row). normalize clk mapping i row)
        = (\<lambda>(i, row). case parseFloat (rawAmt mapping row) of None \<Rightarrow> False | Some v \<Rightarrow> v \<noteq> 0)"
    by (auto simp: fun_eq_iff positive_normalize)
  then show ?thesis by (simp add: newEx_def filter_map)
qed

lemma digit_chars:
  "char_of ` {48, 49, 50, 51, 52, 53, 54, 55, 56, 57 :: nat} = set ''0123456789''"
proof -
  have "map char_of [48, 49, 50, 51, 52, 53, 54, 55, 56, 57 :: nat] = ''0123456789''"
    by code_simp
  then have "set (map char_of [48, 49, 50, 51, 52, 53, 54, 55, 56, 57 :: nat]) = set ''0123456789''"
    by (rule arg_cong)
  then show ?thesis by (simp only: set_map list.set insert_commute)
qed

lemma keeps_iff: "keeps c \<longleftrightarrow> c \<in> set ''0123456789.-''"
proof -
  have "isDigit c \<longleftrightarrow> c \<in> set ''0123456789''"
  proof
    assume "isDigit c"
    then have "of_char c \<in> {48..57::nat}" by (simp add: isDigit_def)
    then have "of_char c \<in> {48, 49, 50, 51, 52, 53, 54, 55, 56, 57 :: nat}" by simp arith
    then have "char_of (of_char c :: nat) \<in> char_of ` {48, 49, 50, 51, 52, 53, 54, 55, 56, 57 :: nat}"
      by (rule imageI)
    then show "c \<in> set ''0123456789''" unfolding digit_chars by simp
  next
    assume "c \<in> set ''0123456789''"
    then show "isDigit c" by (auto simp: isDigit_def)
  qed
  then show ?thesis by (auto simp: keeps_def)
qed

lemma expenses_finishImport:
  "importing st = Some res \<Longrightarrow>
   finishImport J clk mapping st
   = Inr ((setExpenses J (\<lambda>p. p @ newEx clk mapping (data res)) st)\<lparr>importing := None\<rparr>)"
  by (simp add: finishImport_def)

lemma expenses_setExpenses [simp]: "expenses (setExpenses J f st) = f (expenses st)"
  by (simp add: setExpenses_def persist_def)


lemma newEx_samples:
  "newEx (sample_clock t) sample_mapping [sample_row ''$50.00'', sample_row ''abc''] = [coffee t]"
  "newEx (sample_clock t) sample_mapping (data sample_csv) = [coffee t]"
  "parseFloat (rawAmt sample_mapping (sample_row ''$50.00'')) = Some 50"
  "parseFloat (rawAmt sample_mapping (sample_row ''abc'')) = None"
  by code_simp+


section \<open>The default mapping\<close>

lemma String_includes_iff: "String_includes s sub \<longleftrightarrow> (\<exists>u v. s = u @ sub @ v)"
proof (induction s)
  case Nil
  then show ?case by simp
next
  case (Cons c s)
  show ?case
  proof
    assume "String_includes (c # s) sub"
    then consider "take (length sub) (c # s) = sub" | "String_includes s sub" by auto
    then show "\<exists>u v. c # s = u @ sub @ v"
    proof cases
      case 1
      then have "c # s = [] @ sub @ drop (length sub) (c # s)"
        by (metis append_Nil append_take_drop_id)
      then show ?thesis by blast
    next
      case 2
      then obtain u v where "s = u @ sub @ v" using Cons.IH by blast
      then have "c # s = (c # u) @ sub @ v" by simp
      then show ?thesis by blast
    qed
  next
    assume "\<exists>u v. c # s = u @ sub @ v"
    then obtain u v where uv: "c # s = u @ sub @ v" by blast
    show "String_includes (c # s) sub"
    proof (cases u)
      case Nil
      then have "take (length sub) (c # s) = sub" using uv by (metis append_Nil append_eq_conv_conj)
      then show ?thesis by simp
    next
      case (Cons a u')
      then have "s = u' @ sub @ v" using uv by simp
      then have "String_includes s sub" using Cons.IH by blast
      then show ?thesis by simp
    qed
  qed
qed

lemma canonical_nonempty: "field \<in> set canonical_fields \<Longrightarrow> field \<noteq> []"
  by (auto simp: canonical_fields_def)

lemma includes_nonempty:
  assumes "String_includes (toLowerCase h) field" and "field \<noteq> []"
  shows "h \<noteq> []"
proof
  assume "h = []"
  then have "String_includes [] field" using assms(1) by (simp add: toLowerCase_def)
  then show False using assms(2) by simp
qed

text \<open>
  C9. For each canonical field, the pre-filled choice is the first header whose lowercased
  text contains the field name as a substring; when no header matches it is the first
  header (and there is none when the file has no header at all).
\<close>

theorem defaultValue_first_match:
  assumes "field \<in> set canonical_fields"
  shows "(\<forall>i < length headers.
            (\<exists>u v. toLowerCase (headers ! i) = u @ field @ v)
            \<and> (\<forall>j < i. \<not> (\<exists>u v. toLowerCase (headers ! j) = u @ field @ v))
            \<longrightarrow> defaultValue headers field = Some (headers ! i))
         \<and> (headers \<noteq> [] \<and> (\<forall>h \<in> set headers. \<not> (\<exists>u v. toLowerCase h = u @ field @ v))
            \<longrightarrow> defaultValue headers field = Some (hd headers))
         \<and> (headers = [] \<longrightarrow> defaultValue headers field = None)"
proof (intro conjI allI impI)
  fix i
  assume i: "i < length headers"
    and m: "(\<exists>u v. toLowerCase (headers ! i) = u @ field @ v)
            \<and> (\<forall>j < i. \<not> (\<exists>u v. toLowerCase (headers ! j) = u @ field @ v))"
  let ?P = "\<lambda>f. String_includes (toLowerCase f) field"
  have "find ?P headers = Some (headers ! i)"
    unfolding find_Some_iff using i m by (auto simp: String_includes_iff)
  moreover have "headers ! i \<noteq> []"
    using m includes_nonempty [of "headers ! i" field] canonical_nonempty [OF assms]
    by (simp add: String_includes_iff)
  ultimately show "defaultValue headers field = Some (headers ! i)"
    by (simp add: defaultValue_def)
next
  assume a: "headers \<noteq> [] \<and> (\<forall>h \<in> set headers. \<not> (\<exists>u v. toLowerCase h = u @ field @ v))"
  then have "find (\<lambda>f. String_includes (toLowerCase f) field) headers = None"
    unfolding find_None_iff by (simp add: String_includes_iff)
  then show "defaultValue headers field = Some (hd headers)"
    using a by (cases headers) (simp_all add: defaultValue_def)
next
  assume "headers = []"
  then show "defaultValue headers field = None" by (simp add: defaultValue_def)
qed

lemma defaultValue_samples:
  "defaultValue [''Posted'', ''Transaction Date'', ''Amount (USD)'', ''Update''] ''date''
     = Some ''Transaction Date''"
  "toLowerCase ''Transaction Date'' = ''transaction date''"
  "defaultValue [''Posted'', ''Memo''] ''amount'' = Some ''Posted''"
  by code_simp+

theorem defaultValue_first_match_witness:
  "''date'' \<in> set canonical_fields
   \<and> defaultValue [''Posted'', ''Transaction Date'', ''Amount (USD)'', ''Update''] ''date''
     = Some ''Transaction Date''"
proof -
  let ?hs = "[''Posted'', ''Transaction Date'', ''Amount (USD)'', ''Update'']"
  have c: "''date'' \<in> set canonical_fields" by (simp add: canonical_fields_def)
  have "String_includes (toLowerCase (?hs ! 1)) ''date''" by code_simp
  then have m1: "\<exists>u v. toLowerCase (?hs ! 1) = u @ ''date'' @ v"
    unfolding String_includes_iff .
  have "\<not> String_includes (toLowerCase (?hs ! 0)) ''date''" by code_simp
  then have m0: "\<forall>j < 1. \<not> (\<exists>u v. toLowerCase (?hs ! j) = u @ ''date'' @ v)"
    unfolding String_includes_iff by simp
  have l: "1 < length ?hs" by simp
  have "\<forall>i < length ?hs.
          (\<exists>u v. toLowerCase (?hs ! i) = u @ ''date'' @ v)
          \<and> (\<forall>j < i. \<not> (\<exists>u v. toLowerCase (?hs ! j) = u @ ''date'' @ v))
          \<longrightarrow> defaultValue ?hs ''date'' = Some (?hs ! i)"
    by (rule defaultValue_first_match [OF c, THEN conjunct1])
  then have "defaultValue ?hs ''date'' = Some (?hs ! 1)" using l m1 m0 by blast
  moreover have "?hs ! 1 = ''Transaction Date''" by simp
  ultimately show ?thesis using c by simp
qed

section \<open>Loading and reloading the store\<close>

lemma of_json_to_json [simp]: "of_json (to_json e) = Some e"
  by (simp add: of_json_def to_json_def str_prop_def num_prop_def)

lemma those_of_json [simp]: "those (map of_json (map to_json xs)) = Some xs"
  by (induction xs) simp_all

lemma load_effect_cases:
  "load_effect J (Some s) =
     (if s = [] then Skipped
      else case JSON_parse J s of
             None \<Rightarrow> Logged
           | Some v \<Rightarrow> if Array_isArray v then Replaced (case v of JArr vs \<Rightarrow> vs) else Ignored)"
  by (simp add: load_effect_def Array_isArray_def split: option.splits jsval.splits)

text \<open>
  C8, as the code has it. On a saved text that \<open>JSON.parse\<close> rejects, or that parses to a
  value other than an array, mounting raises nothing and leaves the store empty. The
  failure is logged exactly when the text is not empty and \<open>JSON.parse\<close> throws; a
  well-formed value that is not an array, and the empty text, are passed over without a
  log entry.
\<close>

theorem mount_invalid_content:
  assumes "JSON_parse J s = None \<or> (\<exists>v. JSON_parse J s = Some v \<and> \<not> Array_isArray v)"
  shows "mount J (Some s)
         = Inr \<lparr>expenses = [], importing = None,
                storage = Some (JSON_stringify J (JArr [])),
                console = (if s \<noteq> [] \<and> JSON_parse J s = None
                           then [''Persistence Load Error''] else [])\<rparr>"
  using assms
  by (auto simp: mount_def load_effect_cases persist_def Let_def)

lemma parse_text_samples:
  "parse_text ''not json'' = None"
  "parse_text ''{}'' = Some (JObj [])"
  "stringify (JArr []) = ''[]''"
  by code_simp+

theorem mount_invalid_content_witness:
  "mount json_engine (Some ''not json'')
   = Inr \<lparr>expenses = [], importing = None, storage = Some ''[]'',
          console = [''Persistence Load Error'']\<rparr>"
  using mount_invalid_content [of json_engine "''not json''"]
  by (simp add: json_engine_def parse_text_samples)

text \<open>
  C8 as stated fails where it says that the failure is logged: the saved text \<open>{}\<close> is
  well-formed JSON and no array, and mounting on it logs nothing.
\<close>

theorem mount_logs_counterexample:
  "JSON_parse json_engine ''{}'' = Some (JObj [])
   \<and> mount json_engine (Some ''{}'')
     = Inr \<lparr>expenses = [], importing = None, storage = Some ''[]'', console = []\<rparr>"
  by (simp add: mount_def load_effect_def persist_def json_engine_def parse_text_samples)

lemma mount_array:
  assumes "JSON_parse J s = Some (JArr vs)" and "s \<noteq> []" and "those (map of_json vs) = Some xs"
  shows "mount J (Some s)
         = Inr \<lparr>expenses = xs, importing = None,
                storage = Some (JSON_stringify J (JArr (map to_json xs))), console = []\<rparr>"
  using assms by (simp add: mount_def load_effect_def setExpenses_def persist_def Let_def)

lemma storage_setExpenses:
  "storage (setExpenses J f st) = Some (JSON_stringify J (JArr (map to_json (f (expenses st)))))"
  by (simp add: setExpenses_def persist_def)



section \<open>Identifiers over a session\<close>

lemma set_newEx:
  assumes "e \<in> set (newEx clk mapping rows)"
  shows "\<exists>i < length rows. id_field e = txn_id (now clk i) i"
proof -
  from assms obtain i row where "(i, row) \<in> set (enumerate 0 rows)"
    and "e = normalize clk mapping i row"
    by (auto simp: newEx_def)
  then show ?thesis by (auto simp: in_set_enumerate_eq)
qed

lemma distinct_newEx: "distinct (map id_field (newEx clk mapping rows))"
proof -
  let ?f = "\<lambda>(i, row). normalize clk mapping i row"
  have "map id_field (map ?f (enumerate 0 rows))
        = map ((\<lambda>i. txn_id (now clk i) i) \<circ> fst) (enumerate 0 rows)"
    by (simp add: comp_def case_prod_unfold)
  also have "\<dots> = map (\<lambda>i. txn_id (now clk i) i) (map fst (enumerate 0 rows))"
    by (simp only: map_map)
  also have "\<dots> = map (\<lambda>i. txn_id (now clk i) i) [0..<length rows]"
    by (simp only: map_fst_enumerate add_0)
  finally have eq: "map id_field (map ?f (enumerate 0 rows))
                    = map (\<lambda>i. txn_id (now clk i) i) [0..<length rows]" .
  have "inj_on (\<lambda>i. txn_id (now clk i) i) (set [0..<length rows])"
    by (rule inj_onI) (use txn_id_inj in blast)
  then have "distinct (map id_field (map ?f (enumerate 0 rows)))"
    unfolding eq by (simp add: distinct_map)
  then show ?thesis unfolding newEx_def by (rule distinct_map_filter)
qed

lemma expenses_purge: "expenses (purge J c st) = (if c then [] else expenses st)"
  by (simp add: purge_def)

lemma reach_invariant:
  assumes "reach J T st"
  shows "distinct (map id_field (expenses st))
         \<and> (\<forall>e \<in> set (expenses st). \<exists>t \<in> T. \<exists>i. id_field e = txn_id t i)"
  using assms
proof (induction rule: reach.induct)
  case (reach_mount st)
  then show ?case by (auto simp: mount_def load_effect_def persist_def)
next
  case (reach_handleCsv T st res)
  then show ?case by (simp add: handleCsv_def)
next
  case (reach_cancel T st)
  then show ?case by (simp add: cancel_def)
next
  case (reach_finishImport T st res clk mapping st')
  let ?new = "newEx clk mapping (data res)"
  have st': "expenses st' = expenses st @ ?new"
    using reach_finishImport.hyps(2,4) by (auto simp: expenses_finishImport)
  have fresh: "id_field a \<noteq> id_field b" if a: "a \<in> set (expenses st)" and b: "b \<in> set ?new" for a b
  proof
    assume eq: "id_field a = id_field b"
    obtain t j where t: "t \<in> T" and ida: "id_field a = txn_id t j"
      using reach_finishImport.IH a by blast
    obtain i where i: "i < length (data res)" and idb: "id_field b = txn_id (now clk i) i"
      using set_newEx [OF b] by blast
    have "t = now clk i" using eq ida idb txn_id_inj by metis
    then show False using t i reach_finishImport.hyps(3) by blast
  qed
  have "distinct (map id_field (expenses st'))"
    unfolding st' using reach_finishImport.IH distinct_newEx [of clk mapping "data res"] fresh
    by (auto simp: distinct_append)
  moreover have "\<exists>t \<in> T \<union> now clk ` {..<length (data res)}. \<exists>i. id_field e = txn_id t i"
    if "e \<in> set (expenses st')" for e
  proof -
    have "e \<in> set (expenses st @ ?new)" using that unfolding st' .
    then consider "e \<in> set (expenses st)" | "e \<in> set ?new" by auto
    then show ?thesis
    proof cases
      case 1
      then show ?thesis using reach_finishImport.IH by blast
    next
      case 2
      then obtain i where "i < length (data res)" and "id_field e = txn_id (now clk i) i"
        using set_newEx by blast
      then show ?thesis by blast
    qed
  qed
  ultimately show ?case by blast
next
  case (reach_purge T st confirmed)
  then show ?case by (simp add: expenses_purge)
next
  case (reach_reload T st st')
  then show ?case by simp
qed

lemma mount_None:
  "mount J None
   = Inr \<lparr>expenses = [], importing = None, storage = Some (JSON_stringify J (JArr [])),
          console = []\<rparr>"
  by (simp add: mount_def load_effect_def persist_def)

lemma import_sample_eq:
  "import_sample t st
   = Inr ((setExpenses json_engine (\<lambda>p. p @ [coffee t]) (handleCsv sample_csv st))\<lparr>importing := None\<rparr>)"
  unfolding import_sample_def
  by (subst expenses_finishImport [of _ sample_csv]) (simp_all add: handleCsv_def newEx_samples)

lemma sample_session_eq:
  "sample_session t t'
   = Inr \<lparr>expenses = [coffee t, coffee t'], importing = None,
          storage = Some (stringify (JArr (map to_json [coffee t, coffee t']))), console = []\<rparr>"
  by (simp add: sample_session_def and_then_def mount_None import_sample_eq setExpenses_def
      persist_def handleCsv_def json_engine_def)

lemma import_sample_reach:
  assumes "reach json_engine T st" and "t \<notin> T"
  shows "\<exists>st'. import_sample t st = Inr st' \<and> reach json_engine (T \<union> {t}) st'"
proof -
  let ?st = "handleCsv sample_csv st"
  have r: "reach json_engine T ?st" using assms(1) by (rule reach_handleCsv)
  have i: "importing ?st = Some sample_csv" by (simp add: handleCsv_def)
  have f: "\<forall>i < length (data sample_csv). now (sample_clock t) i \<notin> T"
    using assms(2) by (simp add: sample_clock_def)
  obtain st' where st': "import_sample t st = Inr st'" by (simp add: import_sample_eq)
  then have "finishImport json_engine (sample_clock t) sample_mapping ?st = Inr st'"
    by (simp add: import_sample_def)
  from reach_finishImport [OF r i f this]
  have "reach json_engine (T \<union> now (sample_clock t) ` {..<length (data sample_csv)}) st'" .
  moreover have "now (sample_clock t) ` {..<length (data sample_csv)} = {t}"
    by (auto simp: sample_clock_def sample_csv_def)
  ultimately show ?thesis using st' by simp
qed

lemma sample_session_reach:
  assumes "t \<noteq> t'"
  shows "\<exists>st. sample_session t t' = Inr st \<and> reach json_engine {t, t'} st"
proof -
  obtain s0 where s0: "mount json_engine None = Inr s0" by (simp add: mount_None)
  then have r0: "reach json_engine {} s0" by (rule reach_mount)
  obtain s1 where s1: "import_sample t s0 = Inr s1" and r1: "reach json_engine ({} \<union> {t}) s1"
    using import_sample_reach [OF r0, of t] by auto
  have "t' \<notin> {} \<union> {t}" using assms by simp
  from import_sample_reach [OF r1 this]
  obtain s2 where s2: "import_sample t' s1 = Inr s2" and r2: "reach json_engine ({} \<union> {t} \<union> {t'}) s2"
    by auto
  have "sample_session t t' = Inr s2"
    by (simp add: sample_session_def and_then_def s0 s1 s2)
  moreover have "{} \<union> {t} \<union> {t'} = {t, t'}" by auto
  ultimately show ?thesis using r2 by simp
qed



lemma digit_char_values:
  "digit_char 0 = CHR ''0''" "digit_char (Suc 0) = CHR ''1''" "digit_char 2 = CHR ''2''"
  "digit_char 3 = CHR ''3''" "digit_char 4 = CHR ''4''" "digit_char 5 = CHR ''5''"
  "digit_char 6 = CHR ''6''" "digit_char 7 = CHR ''7''" "digit_char 8 = CHR ''8''"
  "digit_char 9 = CHR ''9''"
  by (simp_all add: digit_char_def char_of_def bit_Suc_0_iff)

lemma digits_of_samples:
  "digits_of 1700000000000 = ''1700000000000''" "digits_of 0 = ''0''"
  by (simp_all add: digits_of.simps digit_char_values)

lemma txn_id_sample: "txn_id 1700000000000 0 = ''txn-1700000000000-0''"
  by (simp add: txn_id_def Number_toString_def digits_of_samples)

lemma id_coffee: "id_field (coffee t) = txn_id t 0"
  by (simp add: coffee_def)

lemma sample_session_ids:
  "map_sum id (\<lambda>st. map id_field (expenses st)) (sample_session t t') = Inr [txn_id t 0, txn_id t' 0]"
  unfolding sample_session_eq by (simp add: id_coffee)


end
